theory Spec2Isabelle
  imports Main "HOL-Library.Sublist"
begin

section \<open>JavaScript strings\<close>

text \<open>
  A string is a list of code units. The model covers the code units 0..255 (Latin-1), which
  is what \<^typ>\<open>char\<close> holds; a character is identified by its code.
\<close>

definition code :: "char \<Rightarrow> nat" where
  "code c = of_char c"

text \<open>The class \<^verbatim>\<open>\w\<close>: \<^verbatim>\<open>[A-Za-z0-9_]\<close>.\<close>

definition isWordChar :: "char \<Rightarrow> bool" where
  "isWordChar c =
     ((48 \<le> code c \<and> code c \<le> 57) \<or> (65 \<le> code c \<and> code c \<le> 90)
      \<or> code c = 95 \<or> (97 \<le> code c \<and> code c \<le> 122))"

text \<open>
  The class \<^verbatim>\<open>\s\<close>, also what \<^verbatim>\<open>trim\<close> and \<^verbatim>\<open>trimEnd\<close> remove: white space and
  line terminators (TAB, LF, VT, FF, CR, SPACE and NBSP below 256).
\<close>

definition isSpaceChar :: "char \<Rightarrow> bool" where
  "isSpaceChar c = ((9 \<le> code c \<and> code c \<le> 13) \<or> code c = 32 \<or> code c = 160)"

text \<open>The dot matches everything but a line terminator (LF, CR below 256).\<close>

definition isLineTerminator :: "char \<Rightarrow> bool" where
  "isLineTerminator c = (code c = 10 \<or> code c = 13)"

text \<open>
  \<^verbatim>\<open>toUpperCase\<close> and \<^verbatim>\<open>toLowerCase\<close> on one code unit below 256. The sharp s (223), the
  micro sign (181) and y with diaeresis (255) have no upper-case form of one code unit below
  256 and stay as they are.
\<close>

definition toUpperChar :: "char \<Rightarrow> char" where
  "toUpperChar c =
     (if (97 \<le> code c \<and> code c \<le> 122) \<or> (224 \<le> code c \<and> code c \<le> 254 \<and> code c \<noteq> 247)
      then char_of (code c - 32) else c)"

definition toLowerChar :: "char \<Rightarrow> char" where
  "toLowerChar c =
     (if (65 \<le> code c \<and> code c \<le> 90) \<or> (192 \<le> code c \<and> code c \<le> 222 \<and> code c \<noteq> 215)
      then char_of (code c + 32) else c)"

definition toLowerCase :: "string \<Rightarrow> string" where
  "toLowerCase s = map toLowerChar s"

definition trimStart :: "string \<Rightarrow> string" where
  "trimStart s = dropWhile isSpaceChar s"

definition trimEnd :: "string \<Rightarrow> string" where
  "trimEnd s = rev (dropWhile isSpaceChar (rev s))"

definition trim :: "string \<Rightarrow> string" where
  "trim s = trimEnd (trimStart s)"

fun startsWith :: "string \<Rightarrow> string \<Rightarrow> bool" where
  "startsWith s [] = True"
| "startsWith [] (p # ps) = False"
| "startsWith (c # cs) (p # ps) = (c = p \<and> startsWith cs ps)"

text \<open>\<^verbatim>\<open>s.substring(n)\<close> for \<open>0 \<le> n\<close>: the string from index \<open>n\<close> on.\<close>

definition substring :: "string \<Rightarrow> nat \<Rightarrow> string" where
  "substring s n = drop n s"


section \<open>Regular expressions with the flag \<^verbatim>\<open>i\<close>\<close>

text \<open>
  Every pattern of the sources is built with the flag \<^verbatim>\<open>i\<close> and no other flag, so the
  matcher below ignores case throughout: a character is in a class when a character with
  the same canonical form is. \<open>variants c\<close> lists the characters with the canonical form
  of \<open>c\<close>: \<open>c\<close>, its upper case and its lower case.
\<close>

definition variants :: "char \<Rightarrow> char list" where
  "variants c = [c, toUpperChar c, toLowerChar c]"

datatype cset =
    Lit char            \<comment> \<open>one character\<close>
  | AnyChar             \<comment> \<open>\<^verbatim>\<open>.\<close>\<close>
  | WordCh              \<comment> \<open>\<^verbatim>\<open>\w\<close>\<close>
  | SpaceCh             \<comment> \<open>\<^verbatim>\<open>\s\<close>\<close>
  | Range char char     \<comment> \<open>\<^verbatim>\<open>a-b\<close> inside a class\<close>

fun member :: "cset \<Rightarrow> char \<Rightarrow> bool" where
  "member (Lit x) c = (c = x)"
| "member AnyChar c = (\<not> isLineTerminator c)"
| "member WordCh c = isWordChar c"
| "member SpaceCh c = isSpaceChar c"
| "member (Range a b) c = (code a \<le> code c \<and> code c \<le> code b)"

datatype atom =
    One cset            \<comment> \<open>a character or an escape\<close>
  | In "cset list"      \<comment> \<open>\<^verbatim>\<open>[...]\<close>\<close>
  | NotIn "cset list"   \<comment> \<open>\<^verbatim>\<open>[^...]\<close>\<close>

definition inSets :: "cset list \<Rightarrow> char \<Rightarrow> bool" where
  "inSets cs c = (\<exists>m \<in> set (variants c). \<exists>a \<in> set cs. member a m)"

fun atom_ok :: "atom \<Rightarrow> char \<Rightarrow> bool" where
  "atom_ok (One a) c = inSets [a] c"
| "atom_ok (In cs) c = inSets cs c"
| "atom_ok (NotIn cs) c = (\<not> inSets cs c)"

datatype regex =
    Eps                   \<comment> \<open>the empty pattern\<close>
  | Atom atom
  | Star atom             \<comment> \<open>\<^verbatim>\<open>a*\<close>, greedy\<close>
  | StarLazy atom         \<comment> \<open>\<^verbatim>\<open>a*?\<close>\<close>
  | Plus atom             \<comment> \<open>\<^verbatim>\<open>a+\<close>, greedy\<close>
  | Seq regex regex
  | Alt regex regex       \<comment> \<open>\<^verbatim>\<open>r|s\<close>\<close>
  | Opt regex             \<comment> \<open>\<^verbatim>\<open>r?\<close>, greedy\<close>
  | Group nat regex       \<comment> \<open>the capturing group of that number\<close>
  | Bol                   \<comment> \<open>\<^verbatim>\<open>^\<close>\<close>
  | Eol                   \<comment> \<open>\<^verbatim>\<open>$\<close>\<close>
  | WordB                 \<comment> \<open>\<^verbatim>\<open>\b\<close>\<close>
  | NegLook regex         \<comment> \<open>\<^verbatim>\<open>(?!r)\<close>\<close>

definition Cat :: "regex list \<Rightarrow> regex" where
  "Cat rs = foldr Seq rs Eps"

definition Str :: "string \<Rightarrow> regex" where
  "Str s = Cat (map (\<lambda>c. Atom (One (Lit c))) s)"

text \<open>
  A matcher state: the text before the current position (reversed), the text from the
  current position on, and the captures so far (entry \<open>k\<close> for group \<open>k\<close>; entry 0 is filled
  by \<open>exec\<close>).
\<close>

type_synonym mstate = "string \<times> string \<times> string option list"

text \<open>
  The backtracking matcher as a list of successes: \<open>run r st\<close> lists the states in which
  \<open>r\<close> can end from \<open>st\<close>, in the order in which backtracking tries them.
\<close>

fun star :: "atom \<Rightarrow> string \<Rightarrow> string \<Rightarrow> (string \<times> string) list" where
  "star a pre [] = [(pre, [])]"
| "star a pre (c # cs) = (if atom_ok a c then star a (c # pre) cs else []) @ [(pre, c # cs)]"

fun starLazy :: "atom \<Rightarrow> string \<Rightarrow> string \<Rightarrow> (string \<times> string) list" where
  "starLazy a pre [] = [(pre, [])]"
| "starLazy a pre (c # cs) = (pre, c # cs) # (if atom_ok a c then starLazy a (c # pre) cs else [])"

definition atWordBoundary :: "string \<Rightarrow> string \<Rightarrow> bool" where
  "atWordBoundary pre rest =
     ((case pre of [] \<Rightarrow> False | p # _ \<Rightarrow> isWordChar p)
       \<noteq> (case rest of [] \<Rightarrow> False | c # _ \<Rightarrow> isWordChar c))"

text \<open>The text consumed between an earlier state with \<open>pre\<close> and a later one with \<open>pre'\<close>.\<close>

definition consumed :: "string \<Rightarrow> string \<Rightarrow> string" where
  "consumed pre pre' = rev (take (length pre' - length pre) pre')"

fun run :: "regex \<Rightarrow> mstate \<Rightarrow> mstate list" where
  "run Eps st = [st]"
| "run (Atom a) (pre, rest, caps) =
     (case rest of [] \<Rightarrow> []
      | c # cs \<Rightarrow> if atom_ok a c then [(c # pre, cs, caps)] else [])"
| "run (Star a) (pre, rest, caps) = map (\<lambda>(p, r). (p, r, caps)) (star a pre rest)"
| "run (StarLazy a) (pre, rest, caps) = map (\<lambda>(p, r). (p, r, caps)) (starLazy a pre rest)"
| "run (Plus a) (pre, rest, caps) =
     (case rest of [] \<Rightarrow> []
      | c # cs \<Rightarrow> if atom_ok a c then map (\<lambda>(p, r). (p, r, caps)) (star a (c # pre) cs) else [])"
| "run (Seq r1 r2) st = concat (map (run r2) (run r1 st))"
| "run (Alt r1 r2) st = run r1 st @ run r2 st"
| "run (Opt r) st =
     filter (\<lambda>st'. length (fst (snd st')) \<noteq> length (fst (snd st))) (run r st) @ [st]"
| "run (Group k r) (pre, rest, caps) =
     map (\<lambda>(pre', rest', caps'). (pre', rest', caps'[k := Some (consumed pre pre')]))
         (run r (pre, rest, caps))"
| "run Bol (pre, rest, caps) = (if pre = [] then [(pre, rest, caps)] else [])"
| "run Eol (pre, rest, caps) = (if rest = [] then [(pre, rest, caps)] else [])"
| "run WordB (pre, rest, caps) = (if atWordBoundary pre rest then [(pre, rest, caps)] else [])"
| "run (NegLook r) st = (if run r st = [] then [st] else [])"

fun ngroups :: "regex \<Rightarrow> nat" where
  "ngroups (Seq r1 r2) = max (ngroups r1) (ngroups r2)"
| "ngroups (Alt r1 r2) = max (ngroups r1) (ngroups r2)"
| "ngroups (Opt r) = ngroups r"
| "ngroups (Group k r) = max k (ngroups r)"
| "ngroups (NegLook r) = ngroups r"
| "ngroups r = 0"

text \<open>
  The result array of \<^verbatim>\<open>exec\<close>: entry 0 is the matched text, entry \<open>k\<close> the text of group
  \<open>k\<close>, \<open>None\<close> (\<^verbatim>\<open>undefined\<close>) for a group that took no part in the match.
\<close>

type_synonym jsmatch = "string option list"

text \<open>
  \<^verbatim>\<open>exec\<close> of a pattern without the flags \<^verbatim>\<open>g\<close> and \<^verbatim>\<open>y\<close>: the first start position,
  from the left, at which the pattern matches, and there the first match in backtracking
  order; \<^verbatim>\<open>null\<close> is \<open>None\<close>.
\<close>

fun exec_from :: "regex \<Rightarrow> nat \<Rightarrow> string \<Rightarrow> string \<Rightarrow> jsmatch option" where
  "exec_from r n pre [] =
     (case run r (pre, [], replicate (Suc n) None) of
        [] \<Rightarrow> None
      | (pre', rest', caps) # _ \<Rightarrow> Some (caps[0 := Some (consumed pre pre')]))"
| "exec_from r n pre (c # cs) =
     (case run r (pre, c # cs, replicate (Suc n) None) of
        [] \<Rightarrow> exec_from r n (c # pre) cs
      | (pre', rest', caps) # _ \<Rightarrow> Some (caps[0 := Some (consumed pre pre')]))"

definition exec :: "regex \<Rightarrow> string \<Rightarrow> jsmatch option" where
  "exec r line = exec_from r (ngroups r) [] line"


section \<open>The completion patterns (regexes/completionregexes)\<close>

datatype languageId = ASM_COLLECTION | ASM_LIST_FILE

text \<open>
  Modelled from the spec: \<^verbatim>\<open>CommonRegexes.regexPrepareFuzzy\<close> is not part of the sources.
  The doc comments of its callers give \<^verbatim>\<open>\w*s\w*n\w*d\<close> for the query \<^verbatim>\<open>snd\<close>, the spec
  the interleaved form \<^verbatim>\<open>\w*c1\w*c2...\<close>: every character of the query, preceded by
  \<^verbatim>\<open>\w*\<close>. The character stands for itself, as a word character does in a pattern.
\<close>

definition regexPrepareFuzzy :: "string \<Rightarrow> regex" where
  "regexPrepareFuzzy searchWord =
     Cat (concat (map (\<lambda>c. [Star (One WordCh), Atom (One (Lit c))]) searchWord))"

text \<open>\<^verbatim>\<open>[\w\.]\<close>\<close>

definition wordOrDot :: atom where
  "wordOrDot = In [WordCh, Lit (CHR ''.'')]"

text \<open>\<^verbatim>\<open>'^(([^0-9 ][\w\.]*)?)\b' + fuzzySearchWord + '[\w\.]*\b(?![:\w\.])'\<close>\<close>

definition regexEveryLabelWithoutColonForWord :: "regex \<Rightarrow> regex" where
  "regexEveryLabelWithoutColonForWord fuzzySearchWord =
     Cat [Bol,
          Group 1 (Opt (Group 2 (Cat [Atom (NotIn [Range (CHR ''0'') (CHR ''9''), Lit (CHR '' '')]),
                                    Star wordOrDot]))),
          WordB, fuzzySearchWord, Star wordOrDot, WordB,
          NegLook (Atom (In [Lit (CHR '':''), WordCh, Lit (CHR ''.'')]))]"

text \<open>
  \<^verbatim>\<open>'^(.*)\b' + fuzzySearchWord + '[\w\.]*:(?:[^:]|$)'\<close> for a list file, otherwise
  \<^verbatim>\<open>'(^@?[\w\.]*|^.*\s@?[\w\.]*)\b' + fuzzySearchWord + '[\w\.]*:(?:[^:]|$)'\<close>.
\<close>

definition regexEveryLabelColonForWord :: "regex \<Rightarrow> languageId \<Rightarrow> regex" where
  "regexEveryLabelColonForWord fuzzySearchWord languageId =
     (if languageId = ASM_LIST_FILE then
        Cat [Bol, Group 1 (Star (One AnyChar)), WordB, fuzzySearchWord, Star wordOrDot,
             Atom (One (Lit (CHR '':''))), Alt (Atom (NotIn [Lit (CHR '':'')])) Eol]
      else
        Cat [Group 1 (Alt (Cat [Bol, Opt (Atom (One (Lit (CHR ''@'')))), Star wordOrDot])
                          (Cat [Bol, Star (One AnyChar), Atom (One SpaceCh),
                                Opt (Atom (One (Lit (CHR ''@'')))), Star wordOrDot])),
             WordB, fuzzySearchWord, Star wordOrDot,
             Atom (One (Lit (CHR '':''))), Alt (Atom (NotIn [Lit (CHR '':'')])) Eol])"

text \<open>
  \<^verbatim>\<open>'^(.*?\s+(MODULE)\s+)' + fuzzySearchWord + '[\w\.]*'\<close> for a list file, otherwise
  \<^verbatim>\<open>'^(\s+(MODULE)\s+)' + fuzzySearchWord + '[\w\.]*'\<close>.
\<close>

definition regexEveryModuleForWord :: "regex \<Rightarrow> languageId \<Rightarrow> regex" where
  "regexEveryModuleForWord fuzzySearchWord languageId =
     (if languageId = ASM_LIST_FILE then
        Cat [Bol, Group 1 (Cat [StarLazy (One AnyChar), Plus (One SpaceCh),
                                Group 2 (Str ''MODULE''), Plus (One SpaceCh)]),
             fuzzySearchWord, Star wordOrDot]
      else
        Cat [Bol, Group 1 (Cat [Plus (One SpaceCh), Group 2 (Str ''MODULE''), Plus (One SpaceCh)]),
             fuzzySearchWord, Star wordOrDot])"

text \<open>
  \<^verbatim>\<open>'^(.*?\s+(MACRO)\s+)' + fuzzySearchWord + '[\w\._]*'\<close> for a list file, otherwise
  \<^verbatim>\<open>'^(\s+(MACRO)\s+)' + fuzzySearchWord + '[\w\._]*'\<close>.
\<close>

definition regexEveryMacroForWord :: "regex \<Rightarrow> languageId \<Rightarrow> regex" where
  "regexEveryMacroForWord fuzzySearchWord languageId =
     (if languageId = ASM_LIST_FILE then
        Cat [Bol, Group 1 (Cat [StarLazy (One AnyChar), Plus (One SpaceCh),
                                Group 2 (Str ''MACRO''), Plus (One SpaceCh)]),
             fuzzySearchWord, Star (In [WordCh, Lit (CHR ''.''), Lit (CHR ''_'')])]
      else
        Cat [Bol, Group 1 (Cat [Plus (One SpaceCh), Group 2 (Str ''MACRO''), Plus (One SpaceCh)]),
             fuzzySearchWord, Star (In [WordCh, Lit (CHR ''.''), Lit (CHR ''_'')])])"

text \<open>
  \<^verbatim>\<open>regexesEveryLabelForWord\<close>: the pattern with colon when \<^verbatim>\<open>labelsWithColons\<close> is set, then
  the pattern without colon when \<^verbatim>\<open>labelsWithoutColons\<close> is set and the language is the
  primary one.
\<close>

definition regexesEveryLabelForWord :: "regex \<Rightarrow> bool \<Rightarrow> bool \<Rightarrow> languageId \<Rightarrow> regex list" where
  "regexesEveryLabelForWord fuzzySearchWord labelsWithColons labelsWithoutColons languageId =
     (if labelsWithColons then [regexEveryLabelColonForWord fuzzySearchWord languageId] else [])
     @ (if labelsWithoutColons \<and> languageId = ASM_COLLECTION
        then [regexEveryLabelWithoutColonForWord fuzzySearchWord] else [])"


section \<open>Configuration and patterns of a request\<close>

record config =
  enableOutlineView :: bool
  enableWorkspaceSymbols :: bool
  workspaceSymbolsRequiredLength :: nat
  labelsWithColons :: bool
  labelsWithoutColons :: bool
  labelsExcludes :: "string list"
  enableCA65CheapLocalLabelNestingInOutline :: bool
  wsFolderPath :: string
  excludeFiles :: string

text \<open>
  Modelled from the spec: the files \<^verbatim>\<open>regexes/commonregexes\<close> and
  \<^verbatim>\<open>regexes/symbolregexes\<close> are not part of the sources, so the compiled patterns the scan
  gets from them are parameters. A pattern is used through \<^verbatim>\<open>exec\<close> only, and the scan
  reads the matched text and the groups 1 and 2 as strings: a pattern is the function from
  a line to that result (\<open>None\<close> for \<^verbatim>\<open>null\<close>). A group without text is the empty string,
  which the scan's test \<^verbatim>\<open>if (moduleName)\<close> treats like \<^verbatim>\<open>undefined\<close>.
\<close>

record rxmatch =
  whole :: string
  grp1 :: string
  grp2 :: string

type_synonym pattern = "string \<Rightarrow> rxmatch option"

text \<open>
  The patterns \<^verbatim>\<open>provideDocumentSymbols\<close> builds for a document: \<^verbatim>\<open>regexLabel\<close> and
  \<^verbatim>\<open>regexMacro\<close> depend on the configuration and the language; \<^verbatim>\<open>regexMacro\<close> may be
  absent (the scan tests \<^verbatim>\<open>if (regexMacro)\<close>).
\<close>

record patterns =
  regexLabel :: pattern
  regexModule :: pattern
  regexStruct :: pattern
  regexCA65 :: pattern
  regexCA65BlockEnd :: pattern
  regexConst :: pattern
  regexData :: pattern
  regexMacro :: "pattern option"


section \<open>The document symbols and the scan state\<close>

datatype symbolKind =
    SymbolKind_Function | SymbolKind_Constant | SymbolKind_Field
  | SymbolKind_Method | SymbolKind_Module | SymbolKind_Struct

text \<open>
  A \<^verbatim>\<open>DocumentSymbol\<close> is an object: the scan keeps references to it in several variables
  and changes its \<^verbatim>\<open>kind\<close>, \<^verbatim>\<open>detail\<close> and \<^verbatim>\<open>children\<close> after it has been put into the
  tree. Objects live in a store, a list in order of creation; a reference is an index into
  it, and \<open>children\<close> holds references. Both ranges of a symbol are
  \<^verbatim>\<open>(line, 0, line, 10000)\<close>, kept as the line.
\<close>

record node =
  name :: string
  detail :: string
  kind :: symbolKind
  rangeLine :: nat
  children :: "nat list"

text \<open>
  The local variables of \<^verbatim>\<open>provideDocumentSymbols\<close>. \<open>lastAbsSymbolChildren\<close> is the
  \<^verbatim>\<open>children\<close> array of a symbol, named by the symbol that owns it.
\<close>

record scan =
  heap :: "node list"
  symbols :: "nat list"
  lastSymbol :: "nat option"
  lastSymbols :: "nat list"
  lastAbsSymbolChildren :: "nat option"
  lastModules :: "nat list"
  defaultSymbolKind :: symbolKind

definition initial :: scan where
  "initial = \<lparr>heap = [], symbols = [], lastSymbol = None, lastSymbols = [],
              lastAbsSymbolChildren = None, lastModules = [],
              defaultSymbolKind = SymbolKind_Function\<rparr>"

text \<open>\<^verbatim>\<open>new vscode.DocumentSymbol(name, detail, kind, range, range)\<close>: a new object, no children.\<close>

definition newSymbol :: "string \<Rightarrow> string \<Rightarrow> symbolKind \<Rightarrow> nat \<Rightarrow> scan \<Rightarrow> nat \<times> scan" where
  "newSymbol nm det k ln s =
     (length (heap s),
      s\<lparr>heap := heap s @ [\<lparr>name = nm, detail = det, kind = k, rangeLine = ln, children = []\<rparr>]\<rparr>)"

text \<open>\<^verbatim>\<open>p.children.push(c)\<close>\<close>

definition pushChild :: "nat \<Rightarrow> nat \<Rightarrow> scan \<Rightarrow> scan" where
  "pushChild p c s =
     s\<lparr>heap := (heap s)[p := (heap s ! p)\<lparr>children := children (heap s ! p) @ [c]\<rparr>]\<rparr>"

text \<open>\<^verbatim>\<open>symbols.push(c)\<close>\<close>

definition pushRoot :: "nat \<Rightarrow> scan \<Rightarrow> scan" where
  "pushRoot c s = s\<lparr>symbols := symbols s @ [c]\<rparr>"

text \<open>
  The recurring block "add to children of last module": the top of \<open>lastModules\<close> gets the
  symbol when there is one, the document root otherwise.
\<close>

definition addToLastModule :: "nat \<Rightarrow> scan \<Rightarrow> scan" where
  "addToLastModule c s =
     (if length (lastModules s) > 0 then pushChild (last (lastModules s)) c s
      else pushRoot c s)"

text \<open>\<^verbatim>\<open>lastModules.pop(); lastAbsSymbolChildren = undefined;\<close> (pop of an empty array does nothing).\<close>

definition popModule :: "scan \<Rightarrow> scan" where
  "popModule s = s\<lparr>lastModules := butlast (lastModules s), lastAbsSymbolChildren := None\<rparr>"

definition excludes :: "config \<Rightarrow> string list" where
  "excludes cfg = ''include'' # labelsExcludes cfg"


section \<open>The scan of one line (DocumentSymbolProvider.provideDocumentSymbols)\<close>

text \<open>
  Lines 64 to 110: the label. The result is the state and the line contents that the later
  checks see.
\<close>

definition labelPart :: "patterns \<Rightarrow> config \<Rightarrow> nat \<Rightarrow> string \<Rightarrow> scan \<Rightarrow> scan \<times> string" where
  "labelPart rx cfg ln lineContents s =
     (case regexLabel rx lineContents of
        None \<Rightarrow> (s, lineContents)
      | Some m \<Rightarrow>
          let labelPlus = trimEnd (whole m);
              label = grp1 m @ grp2 m
          in if label \<in> set (excludes cfg) then (s, lineContents)
             else
               let (sym, s1) = newSymbol label [] (defaultSymbolKind s) ln s;
                   s2 = s1\<lparr>lastSymbol := Some sym, lastSymbols := lastSymbols s1 @ [sym]\<rparr>;
                   s3 = (if startsWith label ''.'' then
                           (case lastAbsSymbolChildren s2 of
                              None \<Rightarrow> s2
                            | Some p \<Rightarrow> pushChild p sym s2)
                         else if \<not> enableCA65CheapLocalLabelNestingInOutline cfg
                                 \<and> startsWith label ''@'' then
                           pushRoot sym s2
                         else
                           (addToLastModule sym s2)\<lparr>lastAbsSymbolChildren := Some sym\<rparr>)
               in (s3, substring lineContents (length labelPlus) @ '' ''))"

text \<open>Lines 112 to 139: a CA65 directive, or else the end of a CA65 block.\<close>

definition ca65Part :: "patterns \<Rightarrow> nat \<Rightarrow> string \<Rightarrow> scan \<Rightarrow> scan" where
  "ca65Part rx ln lineContents s =
     (case regexCA65 rx lineContents of
        Some matchCA65 \<Rightarrow>
          let directive = trim (toLowerCase (grp1 matchCA65));
              symbolName = grp2 matchCA65;
              (ca65Symbol, s1) = newSymbol symbolName [] SymbolKind_Method ln s;
              s2 = addToLastModule ca65Symbol s1;
              canHaveChildren = (\<not> startsWith directive ''.define'')
          in if canHaveChildren then s2\<lparr>lastModules := lastModules s2 @ [ca65Symbol]\<rparr> else s2
      | None \<Rightarrow>
          (case regexCA65BlockEnd rx lineContents of
             Some matchCA65BlockEnd \<Rightarrow> popModule s
           | None \<Rightarrow> s))"

text \<open>Lines 143 to 149: the macro symbol always goes to the document root.\<close>

definition macroPart :: "pattern \<Rightarrow> nat \<Rightarrow> string \<Rightarrow> scan \<Rightarrow> scan" where
  "macroPart rxMacro ln lineContents s =
     (case rxMacro lineContents of
        Some matchMacro \<Rightarrow>
          let macroName = grp2 matchMacro;
              (macroSymbol, s1) = newSymbol macroName [] SymbolKind_Method ln s
          in pushRoot macroSymbol s1
      | None \<Rightarrow> s)"

text \<open>Lines 154 to 156: the MODULE pattern, and the STRUCT pattern when that fails.\<close>

definition matchModuleOrStruct :: "patterns \<Rightarrow> string \<Rightarrow> rxmatch option" where
  "matchModuleOrStruct rx lineContents =
     (case regexModule rx lineContents of
        Some m \<Rightarrow> Some m
      | None \<Rightarrow> regexStruct rx lineContents)"

text \<open>Lines 158 to 187: a line that matched MODULE or STRUCT.\<close>

definition modulePart :: "rxmatch \<Rightarrow> nat \<Rightarrow> scan \<Rightarrow> scan" where
  "modulePart matchModule ln s =
     (let keyword = toLowerCase (grp1 matchModule);
          moduleName = grp2 matchModule;
          s1 = (if moduleName \<noteq> [] then
                  let kind = (if startsWith keyword ''module'' then SymbolKind_Module
                              else SymbolKind_Struct);
                      (moduleSymbol, sa) = newSymbol moduleName [] kind ln s;
                      sb = addToLastModule moduleSymbol sa
                  in sb\<lparr>lastModules := lastModules sb @ [moduleSymbol]\<rparr>
                else s);
          s2 = (if keyword = ''endmodule'' \<or> keyword = ''ends'' then popModule s1 else s1)
      in s2\<lparr>lastSymbol := None, lastSymbols := []\<rparr>)"

text \<open>Lines 217 to 220: every pending label gets the kind and the detail.\<close>

definition setKind :: "symbolKind \<Rightarrow> string \<Rightarrow> nat \<Rightarrow> node list \<Rightarrow> node list" where
  "setKind k det elem h = h[elem := (h ! elem)\<lparr>kind := k, detail := det\<rparr>]"

text \<open>Lines 191 to 228: code, constant or data.\<close>

definition classifyPart :: "patterns \<Rightarrow> string \<Rightarrow> scan \<Rightarrow> scan" where
  "classifyPart rx lineContents0 s0 =
     (let lineContents = trim lineContents0;
          s = (if lineContents = [] then s0\<lparr>defaultSymbolKind := SymbolKind_Function\<rparr> else s0)
      in if lastSymbol s \<noteq> None \<and> lineContents \<noteq> [] then
           let found = (case regexConst rx lineContents of
                          Some m \<Rightarrow> Some (SymbolKind_Constant, m)
                        | None \<Rightarrow>
                            (case regexData rx lineContents of
                               Some m \<Rightarrow> Some (SymbolKind_Field, m)
                             | None \<Rightarrow> None));
               s1 = (case found of
                       Some (k, m) \<Rightarrow>
                         s\<lparr>heap := fold (setKind k (grp1 m @ '' '' @ trimEnd (grp2 m)))
                                         (lastSymbols s) (heap s),
                           defaultSymbolKind := k\<rparr>
                     | None \<Rightarrow> s)
           in s1\<lparr>lastSymbol := None, lastSymbols := []\<rparr>
         else s)"

text \<open>
  The body of the loop over the lines. Each \<^verbatim>\<open>continue\<close> of the source ends the line: the
  one at line 150 stands inside \<^verbatim>\<open>if (regexMacro)\<close> and outside \<^verbatim>\<open>if (matchMacro)\<close>.
\<close>

definition processLine :: "patterns \<Rightarrow> config \<Rightarrow> nat \<Rightarrow> string \<Rightarrow> scan \<Rightarrow> scan" where
  "processLine rx cfg ln line0 s0 =
     (let (s1, lineContents) = labelPart rx cfg ln line0 s0;
          s2 = ca65Part rx ln lineContents s1
      in case regexMacro rx of
           Some rxMacro \<Rightarrow> macroPart rxMacro ln lineContents s2
         | None \<Rightarrow>
             (case matchModuleOrStruct rx lineContents of
                Some matchModule \<Rightarrow> modulePart matchModule ln s2
              | None \<Rightarrow> classifyPart rx lineContents s2))"

fun scanLines :: "patterns \<Rightarrow> config \<Rightarrow> nat \<Rightarrow> string list \<Rightarrow> scan \<Rightarrow> scan" where
  "scanLines rx cfg ln [] s = s"
| "scanLines rx cfg ln (l # ls) s = scanLines rx cfg (Suc ln) ls (processLine rx cfg ln l s)"

text \<open>
  \<^verbatim>\<open>provideDocumentSymbols\<close> for the lines of a document after \<^verbatim>\<open>stripAllComments\<close> (not
  part of the sources): \<^verbatim>\<open>undefined\<close> without a configuration or with the outline switched
  off, otherwise the state at the end of the loop, whose \<open>symbols\<close> are returned.
\<close>

definition provideDocumentSymbols :: "patterns \<Rightarrow> config option \<Rightarrow> string list \<Rightarrow> scan option" where
  "provideDocumentSymbols rx config lines =
     (case config of
        None \<Rightarrow> None
      | Some cfg \<Rightarrow>
          if \<not> enableOutlineView cfg then None
          else Some (scanLines rx cfg 0 lines initial))"

text \<open>
  The returned value as a tree: the symbols reached from the returned array through
  \<open>children\<close>. A child is created after its parent, so the depth of the tree is at most the
  number of objects; \<open>tree\<close> gives \<open>None\<close> when the depth \<open>d\<close> does not suffice.
\<close>

datatype symbolTree = DocumentSymbol string string symbolKind nat "symbolTree list"

fun tree :: "nat \<Rightarrow> node list \<Rightarrow> nat \<Rightarrow> symbolTree option" where
  "tree 0 h i = None"
| "tree (Suc d) h i =
     (if i < length h then
        (case those (map (tree d h) (children (h ! i))) of
           None \<Rightarrow> None
         | Some ts \<Rightarrow>
             Some (DocumentSymbol (name (h ! i)) (detail (h ! i)) (kind (h ! i))
                                  (rangeLine (h ! i)) ts))
      else None)"

definition outline :: "scan \<Rightarrow> symbolTree list option" where
  "outline s = those (map (tree (length (heap s)) (heap s)) (symbols s))"


section \<open>The workspace symbols (WorkspaceSymbolProvider)\<close>

text \<open>A location found by \<^verbatim>\<open>grepMultiple\<close>: the matched symbol, the file and the line range.\<close>

record grepLocation =
  symbol :: string
  uri :: string
  locRange :: "nat \<times> nat \<times> nat \<times> nat"

text \<open>\<^verbatim>\<open>new vscode.SymbolInformation(text, undefined, '', location)\<close>\<close>

record symbolInformation =
  symName :: string
  symLocation :: "string \<times> nat \<times> nat \<times> nat \<times> nat"

text \<open>
  Modelled from the spec: \<^verbatim>\<open>grepMultiple\<close> (file \<^verbatim>\<open>grep\<close>), the pattern
  \<^verbatim>\<open>CommonRegexes.regexCA65DirectiveForWord\<close> and the map \<^verbatim>\<open>Config.configs\<close> are not part of
  the sources. The search is a parameter: the function from the patterns, the root folder,
  the language and the excluded files to the locations it finds.
\<close>

record wsEnv =
  regexCA65DirectiveForWord :: "regex \<Rightarrow> bool \<Rightarrow> regex"
  grepMultiple :: "regex list \<Rightarrow> string \<Rightarrow> languageId \<Rightarrow> string \<Rightarrow> grepLocation list"
  configs :: "string \<Rightarrow> config option"

definition getWsSymbols :: "wsEnv \<Rightarrow> config \<Rightarrow> string \<Rightarrow> symbolInformation list" where
  "getWsSymbols env cfg query =
     (let languageId = ASM_COLLECTION;
          fuzzySearchWord = regexPrepareFuzzy query;
          regexes = regexesEveryLabelForWord fuzzySearchWord (labelsWithColons cfg)
                      (labelsWithoutColons cfg) languageId
                    @ [regexEveryModuleForWord fuzzySearchWord languageId]
                    @ [regexEveryMacroForWord fuzzySearchWord languageId]
                    @ [regexCA65DirectiveForWord env fuzzySearchWord True];
          locations = grepMultiple env regexes (wsFolderPath cfg) languageId (excludeFiles cfg)
      in map (\<lambda>loc. \<lparr>symName = symbol loc, symLocation = (uri loc, locRange loc)\<rparr>)
             (filter (\<lambda>loc. symbol loc \<notin> set (labelsExcludes cfg)) locations))"

text \<open>
  The loop of \<^verbatim>\<open>provideWorkspaceSymbols\<close> over the workspace folders (each one its
  \<^verbatim>\<open>uri.fsPath\<close>). The search of a folder is awaited, so the cancellation token can change
  between two passes: \<open>isCancellationRequested i\<close> is what the token says when pass \<open>i\<close>
  reads it, \<open>syms\<close> the array \<^verbatim>\<open>symbols\<close>. \<open>None\<close> is \<^verbatim>\<open>resolve(undefined)\<close>.
\<close>

fun wsLoop :: "wsEnv \<Rightarrow> string \<Rightarrow> (nat \<Rightarrow> bool) \<Rightarrow> nat \<Rightarrow> string list
               \<Rightarrow> symbolInformation list \<Rightarrow> symbolInformation list option" where
  "wsLoop env query isCancellationRequested i [] syms = Some syms"
| "wsLoop env query isCancellationRequested i (ws # rest) syms =
     (if isCancellationRequested i then None
      else
        (case configs env ws of
           None \<Rightarrow> wsLoop env query isCancellationRequested (Suc i) rest syms
         | Some cfg \<Rightarrow>
             if \<not> enableWorkspaceSymbols cfg then
               wsLoop env query isCancellationRequested (Suc i) rest syms
             else if length query < workspaceSymbolsRequiredLength cfg then
               wsLoop env query isCancellationRequested (Suc i) rest syms
             else
               wsLoop env query isCancellationRequested (Suc i) rest
                 (syms @ getWsSymbols env cfg query)))"

definition provideWorkspaceSymbols :: "wsEnv \<Rightarrow> string list option \<Rightarrow> string \<Rightarrow> (nat \<Rightarrow> bool)
                                         \<Rightarrow> symbolInformation list option" where
  "provideWorkspaceSymbols env wsFolders query isCancellationRequested =
     (case wsFolders of
        None \<Rightarrow> Some []
      | Some folders \<Rightarrow> wsLoop env query isCancellationRequested 0 folders [])"

text \<open>The symbols one folder contributes when its pass is not cancelled.\<close>

definition folderSymbols :: "wsEnv \<Rightarrow> string \<Rightarrow> string \<Rightarrow> symbolInformation list" where
  "folderSymbols env query ws =
     (case configs env ws of
        None \<Rightarrow> []
      | Some cfg \<Rightarrow>
          if enableWorkspaceSymbols cfg \<and> \<not> length query < workspaceSymbolsRequiredLength cfg
          then getWsSymbols env cfg query else [])"


section \<open>Sample patterns for the worked examples\<close>

text \<open>
  Modelled from the spec: the patterns of \<^verbatim>\<open>regexes/commonregexes\<close> and
  \<^verbatim>\<open>regexes/symbolregexes\<close> are not part of the sources. The patterns below follow the
  spec's description of them and serve the worked examples only: a label ends in a colon, a
  relative label begins with a dot, a cheap local label with \<^verbatim>\<open>@\<close>; MODULE and STRUCT open a
  named scope that ENDMODULE and ENDS close; \<^verbatim>\<open>.proc\<close>, \<^verbatim>\<open>.scope\<close> and \<^verbatim>\<open>.macro\<close> open a
  CA65 block, \<^verbatim>\<open>.define\<close> has no body; EQU defines a constant, DEFB, DEFW, DB and DW data;
  MACRO declares a macro as in \<^verbatim>\<open>regexEveryMacroForWord\<close>.
\<close>

definition group :: "jsmatch \<Rightarrow> nat \<Rightarrow> string" where
  "group m k = (if k < length m then (case m ! k of None \<Rightarrow> [] | Some t \<Rightarrow> t) else [])"

definition compiled :: "regex \<Rightarrow> pattern" where
  "compiled r line =
     (case exec r line of
        None \<Rightarrow> None
      | Some m \<Rightarrow> Some \<lparr>whole = group m 0, grp1 = group m 1, grp2 = group m 2\<rparr>)"

text \<open>\<^verbatim>\<open>/^([.@]?)([a-z_][\w\.]*):/i\<close>\<close>

definition sampleLabel :: regex where
  "sampleLabel =
     Cat [Bol, Group 1 (Opt (Atom (In [Lit (CHR ''.''), Lit (CHR ''@'')]))),
          Group 2 (Cat [Atom (In [Range (CHR ''a'') (CHR ''z''), Lit (CHR ''_'')]), Star wordOrDot]),
          Atom (One (Lit (CHR '':'')))]"

text \<open>\<^verbatim>\<open>/^\s*(MODULE|ENDMODULE)\b\s*([\w\.]*)/i\<close>\<close>

definition sampleModule :: regex where
  "sampleModule =
     Cat [Bol, Star (One SpaceCh), Group 1 (Alt (Str ''MODULE'') (Str ''ENDMODULE'')), WordB,
          Star (One SpaceCh), Group 2 (Star wordOrDot)]"

text \<open>\<^verbatim>\<open>/^\s*(STRUCT|ENDS)\b\s*([\w\.]*)/i\<close>\<close>

definition sampleStruct :: regex where
  "sampleStruct =
     Cat [Bol, Star (One SpaceCh), Group 1 (Alt (Str ''STRUCT'') (Str ''ENDS'')), WordB,
          Star (One SpaceCh), Group 2 (Star wordOrDot)]"

text \<open>\<^verbatim>\<open>/^\s*(\.proc|\.scope|\.macro|\.define)\s+([\w@]+)/i\<close>\<close>

definition sampleCA65 :: regex where
  "sampleCA65 =
     Cat [Bol, Star (One SpaceCh),
          Group 1 (Alt (Str ''.proc'') (Alt (Str ''.scope'') (Alt (Str ''.macro'') (Str ''.define'')))),
          Plus (One SpaceCh), Group 2 (Plus (In [WordCh, Lit (CHR ''@'')]))]"

text \<open>\<^verbatim>\<open>/^\s*(\.endproc|\.endscope|\.endmacro)\b/i\<close>\<close>

definition sampleCA65BlockEnd :: regex where
  "sampleCA65BlockEnd =
     Cat [Bol, Star (One SpaceCh),
          Group 1 (Alt (Str ''.endproc'') (Alt (Str ''.endscope'') (Str ''.endmacro''))), WordB]"

text \<open>\<^verbatim>\<open>/\b(EQU)\s+(.*)/i\<close>\<close>

definition sampleConst :: regex where
  "sampleConst = Cat [WordB, Group 1 (Str ''EQU''), Plus (One SpaceCh), Group 2 (Star (One AnyChar))]"

text \<open>\<^verbatim>\<open>/\b(DEFB|DEFW|DB|DW)\b\s*(.*)/i\<close>\<close>

definition sampleData :: regex where
  "sampleData =
     Cat [WordB, Group 1 (Alt (Str ''DEFB'') (Alt (Str ''DEFW'') (Alt (Str ''DB'') (Str ''DW'')))),
          WordB, Star (One SpaceCh), Group 2 (Star (One AnyChar))]"

text \<open>\<^verbatim>\<open>/^\s+(MACRO)\s+([\w\.]+)/i\<close>\<close>

definition sampleMacro :: regex where
  "sampleMacro =
     Cat [Bol, Plus (One SpaceCh), Group 1 (Str ''MACRO''), Plus (One SpaceCh),
          Group 2 (Plus wordOrDot)]"

text \<open>The patterns of a request, for a language with a macro pattern and for one without.\<close>

definition samplePatterns :: "bool \<Rightarrow> patterns" where
  "samplePatterns withMacro =
     \<lparr>regexLabel = compiled sampleLabel,
      regexModule = compiled sampleModule,
      regexStruct = compiled sampleStruct,
      regexCA65 = compiled sampleCA65,
      regexCA65BlockEnd = compiled sampleCA65BlockEnd,
      regexConst = compiled sampleConst,
      regexData = compiled sampleData,
      regexMacro = (if withMacro then Some (compiled sampleMacro) else None)\<rparr>"

definition sampleConfig :: config where
  "sampleConfig =
     \<lparr>enableOutlineView = True, enableWorkspaceSymbols = True,
      workspaceSymbolsRequiredLength = 0, labelsWithColons = True, labelsWithoutColons = False,
      labelsExcludes = [], enableCA65CheapLocalLabelNestingInOutline = False,
      wsFolderPath = ''/ws'', excludeFiles = []\<rparr>"

text \<open>The outline \<^verbatim>\<open>provideDocumentSymbols\<close> returns, as a tree.\<close>

definition sampleOutline :: "bool \<Rightarrow> string list \<Rightarrow> symbolTree list option" where
  "sampleOutline withMacro lines =
     (case provideDocumentSymbols (samplePatterns withMacro) (Some sampleConfig) lines of
        None \<Rightarrow> None
      | Some s \<Rightarrow> outline s)"

text \<open>
  A workspace for the worked examples: every folder has the sample configuration, and the
  search finds the symbols \<^verbatim>\<open>foo\<close> and \<^verbatim>\<open>bar\<close> in the folder's \<^verbatim>\<open>main.asm\<close>.
\<close>

definition sampleEnv :: wsEnv where
  "sampleEnv =
     \<lparr>regexCA65DirectiveForWord = (\<lambda>fuzzySearchWord b. fuzzySearchWord),
      grepMultiple = (\<lambda>regexes root languageId excluded.
         [\<lparr>symbol = ''foo'', uri = root @ ''/main.asm'', locRange = (0, 0, 0, 3)\<rparr>,
          \<lparr>symbol = ''bar'', uri = root @ ''/main.asm'', locRange = (4, 0, 4, 3)\<rparr>]),
      configs = (\<lambda>ws. Some (sampleConfig\<lparr>wsFolderPath := ws\<rparr>))\<rparr>"

section \<open>Notions used to state the properties\<close>

text \<open>The kinds a label can have: code, constant or data.\<close>

definition labelKind :: "symbolKind \<Rightarrow> bool" where
  "labelKind k = (k = SymbolKind_Function \<or> k = SymbolKind_Constant \<or> k = SymbolKind_Field)"

text \<open>
  The label a line declares, that is, the one \<open>labelPart\<close> makes a symbol for: the label
  pattern matches and the label is not excluded.
\<close>

definition keptLabel :: "patterns \<Rightarrow> config \<Rightarrow> string \<Rightarrow> string option" where
  "keptLabel rx cfg line0 =
     (case regexLabel rx line0 of
        None \<Rightarrow> None
      | Some m \<Rightarrow> if grp1 m @ grp2 m \<in> set (excludes cfg) then None else Some (grp1 m @ grp2 m))"

text \<open>The line contents the checks after the label see; they do not depend on the state.\<close>

definition afterLabel :: "patterns \<Rightarrow> config \<Rightarrow> string \<Rightarrow> string" where
  "afterLabel rx cfg line0 = snd (labelPart rx cfg 0 line0 initial)"

text \<open>A line with a relative label: the first branch of the test at line 82.\<close>

definition declaresRelative :: "patterns \<Rightarrow> config \<Rightarrow> string \<Rightarrow> bool" where
  "declaresRelative rx cfg line0 =
     (case keptLabel rx cfg line0 of None \<Rightarrow> False | Some label \<Rightarrow> startsWith label ''.'')"

text \<open>
  A line with an absolute label: the last branch of that test, the one that sets
  \<open>lastAbsSymbolChildren\<close>.
\<close>

definition declaresAbsolute :: "patterns \<Rightarrow> config \<Rightarrow> string \<Rightarrow> bool" where
  "declaresAbsolute rx cfg line0 =
     (case keptLabel rx cfg line0 of
        None \<Rightarrow> False
      | Some label \<Rightarrow>
          \<not> startsWith label ''.''
          \<and> \<not> (\<not> enableCA65CheapLocalLabelNestingInOutline cfg \<and> startsWith label ''@''))"

text \<open>The test at line 180.\<close>

definition isEndKeyword :: "rxmatch \<Rightarrow> bool" where
  "isEndKeyword m = (toLowerCase (grp1 m) = ''endmodule'' \<or> toLowerCase (grp1 m) = ''ends'')"

text \<open>The line contents open a CA65 block: line 131 is reached.\<close>

definition ca65Opens :: "patterns \<Rightarrow> string \<Rightarrow> bool" where
  "ca65Opens rx lineContents =
     (case regexCA65 rx lineContents of
        None \<Rightarrow> False
      | Some m \<Rightarrow> \<not> startsWith (trim (toLowerCase (grp1 m))) ''.define'')"

text \<open>The line contents end a CA65 block: line 136 is reached.\<close>

definition ca65Closes :: "patterns \<Rightarrow> string \<Rightarrow> bool" where
  "ca65Closes rx lineContents =
     (regexCA65 rx lineContents = None \<and> regexCA65BlockEnd rx lineContents \<noteq> None)"

text \<open>The MODULE or STRUCT match the scan gets to see: line 154 is reached and matches.\<close>

definition moduleSeen :: "patterns \<Rightarrow> string \<Rightarrow> rxmatch option" where
  "moduleSeen rx lineContents =
     (case regexMacro rx of
        Some rxMacro \<Rightarrow> None
      | None \<Rightarrow> matchModuleOrStruct rx lineContents)"

text \<open>
  A line on which the scan clears \<open>lastAbsSymbolChildren\<close>: it ends a CA65 block (line 137)
  or it is seen as ENDMODULE or ENDS (line 183).
\<close>

definition resetsParent :: "patterns \<Rightarrow> config \<Rightarrow> string \<Rightarrow> bool" where
  "resetsParent rx cfg line0 =
     (ca65Closes rx (afterLabel rx cfg line0)
      \<or> (case moduleSeen rx (afterLabel rx cfg line0) of None \<Rightarrow> False | Some m \<Rightarrow> isEndKeyword m))"

text \<open>
  A line that pushes exactly one scope frame and pops none: a CA65 block directive, or a
  MODULE or STRUCT with a name.
\<close>

definition opensFrame :: "patterns \<Rightarrow> config \<Rightarrow> string \<Rightarrow> bool" where
  "opensFrame rx cfg line0 =
     (let lineContents = afterLabel rx cfg line0 in
      (ca65Opens rx lineContents \<and> moduleSeen rx lineContents = None)
      \<or> (\<not> ca65Opens rx lineContents \<and> \<not> ca65Closes rx lineContents
          \<and> (case moduleSeen rx lineContents of
                None \<Rightarrow> False
              | Some m \<Rightarrow> grp2 m \<noteq> [] \<and> \<not> isEndKeyword m)))"

text \<open>
  A line that pops one scope frame and pushes none: the end of a CA65 block, or an
  ENDMODULE or ENDS without a name.
\<close>

definition closesFrame :: "patterns \<Rightarrow> config \<Rightarrow> string \<Rightarrow> bool" where
  "closesFrame rx cfg line0 =
     (let lineContents = afterLabel rx cfg line0 in
      (ca65Closes rx lineContents \<and> moduleSeen rx lineContents = None)
      \<or> (\<not> ca65Opens rx lineContents \<and> \<not> ca65Closes rx lineContents
          \<and> (case moduleSeen rx lineContents of
                None \<Rightarrow> False
              | Some m \<Rightarrow> grp2 m = [] \<and> isEndKeyword m)))"

text \<open>
  The number of open frames after a sequence of opening (\<open>True\<close>) and closing (\<open>False\<close>)
  lines, from \<open>d\<close> open frames: a close without an open frame changes nothing.
\<close>

fun depthAfter :: "bool list \<Rightarrow> nat \<Rightarrow> nat" where
  "depthAfter [] d = d"
| "depthAfter (True # ts) d = depthAfter ts (Suc d)"
| "depthAfter (False # ts) d = depthAfter ts (d - 1)"

text \<open>
  A symbol is attached when it is an element of the returned array or of the children of
  some symbol; a symbol of the returned tree is attached.
\<close>

definition attached :: "scan \<Rightarrow> nat \<Rightarrow> bool" where
  "attached s i = (i \<in> set (symbols s) \<or> (\<exists>n \<in> set (heap s). i \<in> set (children n)))"

text \<open>Every reference of the store and of the variables is to an object that exists.\<close>

definition wf :: "scan \<Rightarrow> bool" where
  "wf s =
     ((\<forall>c \<in> set (symbols s). c < length (heap s))
      \<and> (\<forall>n \<in> set (heap s). \<forall>c \<in> set (children n). c < length (heap s))
      \<and> (\<forall>c \<in> set (lastSymbols s). c < length (heap s))
      \<and> (\<forall>c \<in> set (lastModules s). c < length (heap s))
      \<and> (\<forall>c. lastSymbol s = Some c \<longrightarrow> c < length (heap s))
      \<and> (\<forall>c. lastAbsSymbolChildren s = Some c \<longrightarrow> c < length (heap s)))"

text \<open>
  \<open>grows n s s'\<close>: from \<open>s\<close> to \<open>s'\<close> objects are only added, names stay, attachments are
  only added, and no symbol below \<open>n\<close> gets a new attachment.
\<close>

definition grows :: "nat \<Rightarrow> scan \<Rightarrow> scan \<Rightarrow> bool" where
  "grows n s s' =
     (length (heap s) \<le> length (heap s')
      \<and> (\<forall>i < length (heap s). name (heap s' ! i) = name (heap s ! i)
             \<and> set (children (heap s ! i)) \<subseteq> set (children (heap s' ! i)))
      \<and> set (symbols s) \<subseteq> set (symbols s')
      \<and> (\<forall>c < n. c \<in> set (symbols s') \<longrightarrow> c \<in> set (symbols s))
      \<and> (\<forall>c < n. \<forall>j < length (heap s'). c \<in> set (children (heap s' ! j))
             \<longrightarrow> j < length (heap s) \<and> c \<in> set (children (heap s ! j))))"

text \<open>What \<open>processLine\<close> does with the state and the line contents that \<open>labelPart\<close> returns.\<close>

definition restOfLine :: "patterns \<Rightarrow> nat \<Rightarrow> string \<Rightarrow> scan \<Rightarrow> scan" where
  "restOfLine rx ln lineContents s1 =
     (case regexMacro rx of
        Some rxMacro \<Rightarrow> macroPart rxMacro ln lineContents (ca65Part rx ln lineContents s1)
      | None \<Rightarrow>
          (case matchModuleOrStruct rx lineContents of
             Some matchModule \<Rightarrow> modulePart matchModule ln (ca65Part rx ln lineContents s1)
           | None \<Rightarrow> classifyPart rx lineContents (ca65Part rx ln lineContents s1)))"

text \<open>
  No symbol with the kind of a label has an excluded name, and the pending labels are
  objects whose names are not excluded.
\<close>

definition labelsOk :: "config \<Rightarrow> scan \<Rightarrow> bool" where
  "labelsOk cfg s =
     ((\<forall>n \<in> set (heap s). labelKind (kind n) \<longrightarrow> name n \<notin> set (excludes cfg))
      \<and> (\<forall>i \<in> set (lastSymbols s). i < length (heap s) \<and> name (heap s ! i) \<notin> set (excludes cfg)))"

text \<open>
  Symbol \<open>i\<close> is not an element of the returned array, and it is a child of symbol \<open>p\<close>
  and of no other symbol.
\<close>

definition childOfOnly :: "scan \<Rightarrow> nat \<Rightarrow> nat \<Rightarrow> bool" where
  "childOfOnly s i p =
     (i \<notin> set (symbols s) \<and> p < length (heap s)
      \<and> (\<forall>j < length (heap s). (i \<in> set (children (heap s ! j))) = (j = p)))"

text \<open>
  The default kind is the kind of a label, and no symbol has the kind Module or Struct.
\<close>

definition noScopeSymbols :: "scan \<Rightarrow> bool" where
  "noScopeSymbols s =
     (labelKind (defaultSymbolKind s)
      \<and> (\<forall>n \<in> set (heap s). kind n \<noteq> SymbolKind_Module \<and> kind n \<noteq> SymbolKind_Struct))"

text \<open>
  Two characters that a pattern with the flag \<^verbatim>\<open>i\<close> takes for the same: \<open>q\<close> is \<open>c\<close> or its
  upper-case or lower-case form.
\<close>

definition sameIgnoringCase :: "char \<Rightarrow> char \<Rightarrow> bool" where
  "sameIgnoringCase q c = (q \<in> set (variants c))"

text \<open>
  The part of the MODULE and MACRO patterns before the searched word:
  \<^verbatim>\<open>\s+(KEYWORD)\s+\<close>.
\<close>

definition keywordHead :: "string \<Rightarrow> regex" where
  "keywordHead kwd = Cat [Plus (One SpaceCh), Group 2 (Str kwd), Plus (One SpaceCh)]"


text \<open>The token as the passes of a query read it: cancelled when the second pass reads it.\<close>

definition cancelledBeforeSecondPass :: "nat \<Rightarrow> bool" where
  "cancelledBeforeSecondPass i = (i = 1)"

text \<open>The token of a query that is never cancelled.\<close>

definition neverCancelled :: "nat \<Rightarrow> bool" where
  "neverCancelled i = False"


section \<open>Properties of the workspace symbols\<close>

lemma wsLoop_eq:
  "wsLoop env query c i folders syms =
     (if \<exists>j < length folders. c (i + j) then None
      else Some (syms @ concat (map (folderSymbols env query) folders)))"
proof (induction folders arbitrary: i syms)
  case Nil
  show ?case by simp
next
  case (Cons ws rest)
  have ex: "(\<exists>j < length (ws # rest). c (i + j)) = (c i \<or> (\<exists>j < length rest. c (Suc i + j)))"
  proof
    assume "\<exists>j < length (ws # rest). c (i + j)"
    then obtain j where j: "j < length (ws # rest)" "c (i + j)" by blast
    show "c i \<or> (\<exists>j < length rest. c (Suc i + j))"
    proof (cases j)
      case 0
      with j show ?thesis by simp
    next
      case (Suc k)
      with j have "k < length rest" "c (Suc i + k)" by simp_all
      then show ?thesis by blast
    qed
  next
    assume "c i \<or> (\<exists>j < length rest. c (Suc i + j))"
    then show "\<exists>j < length (ws # rest). c (i + j)"
    proof
      assume "c i"
      then have "0 < length (ws # rest) \<and> c (i + 0)" by simp
      then show ?thesis by blast
    next
      assume "\<exists>j < length rest. c (Suc i + j)"
      then obtain j where "j < length rest" "c (Suc i + j)" by blast
      then have "Suc j < length (ws # rest) \<and> c (i + Suc j)" by simp
      then show ?thesis by blast
    qed
  qed
  show ?case
  proof (cases "c i")
    case True
    then have "\<exists>j < length (ws # rest). c (i + j)" using ex by blast
    with True show ?thesis by simp
  next
    case False
    have step: "wsLoop env query c i (ws # rest) syms
                  = wsLoop env query c (Suc i) rest (syms @ folderSymbols env query ws)"
      using False by (simp add: folderSymbols_def split: option.splits)
    show ?thesis
      unfolding step ex Cons.IH using False by simp
  qed
qed

text \<open>
  C4 (as amended). A query over the workspace folders resolves to \<^verbatim>\<open>undefined\<close> as soon
  as one pass of the loop finds cancellation requested: the symbols gathered from the
  folders before it are not returned. Without cancellation, it resolves to the symbols of
  all folders, in order.
\<close>

theorem workspace_cancellation_discards_all:
  "provideWorkspaceSymbols env (Some folders) query c =
     (if \<exists>i < length folders. c i then None
      else Some (concat (map (folderSymbols env query) folders)))"
  by (simp add: provideWorkspaceSymbols_def wsLoop_eq)

theorem workspace_cancellation_discards_all_witness:
  "provideWorkspaceSymbols sampleEnv (Some [''/a'', ''/b'']) ''f'' cancelledBeforeSecondPass = None
   \<and> provideWorkspaceSymbols sampleEnv (Some [''/a'', ''/b'']) ''f'' neverCancelled
       = Some (folderSymbols sampleEnv ''f'' ''/a'' @ folderSymbols sampleEnv ''f'' ''/b'')"
  using workspace_cancellation_discards_all [of sampleEnv "[''/a'', ''/b'']" "''f''" cancelledBeforeSecondPass]
        workspace_cancellation_discards_all [of sampleEnv "[''/a'', ''/b'']" "''f''" neverCancelled]
  by (simp add: cancelledBeforeSecondPass_def neverCancelled_def)

text \<open>
  C4 as stated fails: with two folders and cancellation seen by the second pass, the first
  folder's symbols have been gathered, and the query resolves to \<^verbatim>\<open>undefined\<close> and not to
  those symbols.
\<close>

theorem workspace_cancellation_keeps_nothing:
  "folderSymbols sampleEnv ''f'' ''/a''
     = [\<lparr>symName = ''foo'', symLocation = (''/a/main.asm'', 0, 0, 0, 3)\<rparr>,
        \<lparr>symName = ''bar'', symLocation = (''/a/main.asm'', 4, 0, 4, 3)\<rparr>]
   \<and> \<not> cancelledBeforeSecondPass 0 \<and> cancelledBeforeSecondPass 1
   \<and> provideWorkspaceSymbols sampleEnv (Some [''/a'', ''/b'']) ''f'' cancelledBeforeSecondPass
     \<noteq> Some (folderSymbols sampleEnv ''f'' ''/a'')
   \<and> provideWorkspaceSymbols sampleEnv (Some [''/a'', ''/b'']) ''f'' cancelledBeforeSecondPass = None"
  by (simp add: provideWorkspaceSymbols_def folderSymbols_def sampleEnv_def sampleConfig_def
        getWsSymbols_def cancelledBeforeSecondPass_def)

section \<open>Properties of the scan state\<close>

subsection \<open>The store only grows\<close>

lemma grows_refl: "grows n s s"
  by (simp add: grows_def)

lemma grows_trans: "grows n s s' \<Longrightarrow> grows n s' s'' \<Longrightarrow> grows n s s''"
  unfolding grows_def
  apply (intro conjI allI impI)
       apply simp
      apply simp
     apply (meson order_less_le_trans subset_trans)
    apply blast
   apply blast
  apply (metis (no_types, lifting) order_less_le_trans)
  apply (metis (no_types, lifting) order_less_le_trans)
  done

lemma grows_mono: "grows n s s' \<Longrightarrow> m \<le> n \<Longrightarrow> grows m s s'"
  unfolding grows_def by (meson order_less_le_trans)

lemma grows_same: "heap s' = heap s \<Longrightarrow> symbols s' = symbols s \<Longrightarrow> grows n s s'"
  by (simp add: grows_def)

lemma grows_newSymbol: "grows n s (snd (newSymbol nm d k ln s))"
  by (auto simp: grows_def newSymbol_def nth_append)

lemma grows_pushRoot: "n \<le> c \<Longrightarrow> grows n s (pushRoot c s)"
  by (auto simp: grows_def pushRoot_def)

lemma nth_update_at:
  "(h[p := v]) ! i = (if i = p \<and> p < length h then v else h ! i)"
  by (cases "p < length h") (auto simp: nth_list_update list_update_beyond)

lemma grows_pushChild: "n \<le> c \<Longrightarrow> grows n s (pushChild p c s)"
  by (auto simp: grows_def pushChild_def nth_update_at)

lemma grows_addToLastModule: "n \<le> c \<Longrightarrow> grows n s (addToLastModule c s)"
  by (simp add: addToLastModule_def grows_pushChild grows_pushRoot)

lemma setKind_length [simp]: "length (fold (setKind k d) xs h) = length h"
  by (induction xs arbitrary: h) (simp_all add: setKind_def)

lemma setKind_keeps:
  "i < length h \<Longrightarrow> name (fold (setKind k d) xs h ! i) = name (h ! i)
     \<and> children (fold (setKind k d) xs h ! i) = children (h ! i)
     \<and> rangeLine (fold (setKind k d) xs h ! i) = rangeLine (h ! i)"
  by (induction xs arbitrary: h) (simp_all add: setKind_def nth_update_at)

lemma grows_setKind: "grows n s (s\<lparr>heap := fold (setKind k d) xs (heap s)\<rparr>)"
  by (simp add: grows_def setKind_keeps)

lemmas prim_defs = newSymbol_def pushChild_def pushRoot_def addToLastModule_def popModule_def

lemma labelPart_grows: "grows (length (heap s)) s (fst (labelPart rx cfg ln l s))"
  by (auto simp: labelPart_def Let_def prim_defs grows_def nth_append nth_update_at
           split: option.splits)

lemma ca65Part_grows: "grows (length (heap s)) s (ca65Part rx ln lc s)"
  by (auto simp: ca65Part_def Let_def prim_defs grows_def nth_append nth_update_at
           split: option.splits)

lemma macroPart_grows: "grows (length (heap s)) s (macroPart p ln lc s)"
  by (auto simp: macroPart_def Let_def prim_defs grows_def nth_append nth_update_at
           split: option.splits)

lemma modulePart_grows: "grows (length (heap s)) s (modulePart m ln s)"
  by (auto simp: modulePart_def Let_def prim_defs grows_def nth_append nth_update_at
           split: option.splits)

lemma classifyPart_grows: "grows n s (classifyPart rx lc s)"
  by (auto simp: classifyPart_def Let_def grows_def setKind_keeps split: option.splits)

lemma snd_labelPart: "snd (labelPart rx cfg ln l s) = afterLabel rx cfg l"
  by (simp add: afterLabel_def labelPart_def Let_def newSymbol_def split: option.splits)

lemma processLine_split:
  "processLine rx cfg ln l s = restOfLine rx ln (afterLabel rx cfg l) (fst (labelPart rx cfg ln l s))"
  by (simp add: processLine_def restOfLine_def Let_def split_beta snd_labelPart)

lemma grows_length: "grows n s s' \<Longrightarrow> length (heap s) \<le> length (heap s')"
  by (simp add: grows_def)

lemma restOfLine_grows: "grows (length (heap s)) s (restOfLine rx ln lc s)"
proof -
  let ?s2 = "ca65Part rx ln lc s"
  have a: "grows (length (heap s)) s ?s2" by (rule ca65Part_grows)
  have le: "length (heap s) \<le> length (heap ?s2)" using a by (rule grows_length)
  have b: "grows (length (heap s)) ?s2 (restOfLine rx ln lc s)"
    unfolding restOfLine_def
    by (auto split: option.splits
             intro: grows_mono [OF macroPart_grows le] grows_mono [OF modulePart_grows le]
                    classifyPart_grows)
  show ?thesis using a b by (rule grows_trans)
qed

lemma processLine_grows: "grows (length (heap s)) s (processLine rx cfg ln l s)"
proof -
  let ?s1 = "fst (labelPart rx cfg ln l s)"
  have a: "grows (length (heap s)) s ?s1" by (rule labelPart_grows)
  have le: "length (heap s) \<le> length (heap ?s1)" using a by (rule grows_length)
  have "grows (length (heap s)) ?s1 (restOfLine rx ln (afterLabel rx cfg l) ?s1)"
    by (rule grows_mono [OF restOfLine_grows le])
  with a show ?thesis unfolding processLine_split by (rule grows_trans)
qed

lemma scanLines_grows: "grows (length (heap s)) s (scanLines rx cfg ln ls s)"
proof (induction ls arbitrary: ln s)
  case Nil
  show ?case by (simp add: grows_refl)
next
  case (Cons l ls)
  let ?s1 = "processLine rx cfg ln l s"
  have a: "grows (length (heap s)) s ?s1" by (rule processLine_grows)
  have le: "length (heap s) \<le> length (heap ?s1)" using a by (rule grows_length)
  have "grows (length (heap s)) ?s1 (scanLines rx cfg (Suc ln) ls ?s1)"
    by (rule grows_mono [OF Cons.IH le])
  with a show ?case by (simp add: grows_trans)
qed

lemma scanLines_append:
  "scanLines rx cfg ln (xs @ ys) s = scanLines rx cfg (ln + length xs) ys (scanLines rx cfg ln xs s)"
  by (induction xs arbitrary: ln s) simp_all

subsection \<open>References stay valid\<close>

lemma wf_nth:
  "wf s =
     ((\<forall>c \<in> set (symbols s). c < length (heap s))
      \<and> (\<forall>j < length (heap s). \<forall>c \<in> set (children (heap s ! j)). c < length (heap s))
      \<and> (\<forall>c \<in> set (lastSymbols s). c < length (heap s))
      \<and> (\<forall>c \<in> set (lastModules s). c < length (heap s))
      \<and> (\<forall>c. lastSymbol s = Some c \<longrightarrow> c < length (heap s))
      \<and> (\<forall>c. lastAbsSymbolChildren s = Some c \<longrightarrow> c < length (heap s)))"
  by (simp add: wf_def all_set_conv_all_nth)

lemma wf_newSymbol: "wf s \<Longrightarrow> wf (snd (newSymbol nm d k ln s))"
  unfolding wf_nth newSymbol_def
  by (auto simp: nth_append less_Suc_eq)

lemma wf_pushChild: "wf s \<Longrightarrow> c < length (heap s) \<Longrightarrow> wf (pushChild p c s)"
  unfolding wf_nth pushChild_def
  by (auto simp: nth_update_at)

lemma wf_pushRoot: "wf s \<Longrightarrow> c < length (heap s) \<Longrightarrow> wf (pushRoot c s)"
  unfolding wf_nth pushRoot_def by auto

lemma wf_addToLastModule: "wf s \<Longrightarrow> c < length (heap s) \<Longrightarrow> wf (addToLastModule c s)"
  by (simp add: addToLastModule_def wf_pushChild wf_pushRoot)

lemma wf_popModule: "wf s \<Longrightarrow> wf (popModule s)"
  unfolding wf_nth popModule_def by (auto dest: in_set_butlastD)

lemma wf_vars:
  "wf s \<Longrightarrow> wf (s\<lparr>lastSymbol := None, lastSymbols := []\<rparr>)"
  "wf s \<Longrightarrow> c < length (heap s) \<Longrightarrow> wf (s\<lparr>lastSymbol := Some c, lastSymbols := lastSymbols s @ [c]\<rparr>)"
  "wf s \<Longrightarrow> c < length (heap s) \<Longrightarrow> wf (s\<lparr>lastModules := lastModules s @ [c]\<rparr>)"
  "wf s \<Longrightarrow> c < length (heap s) \<Longrightarrow> wf (s\<lparr>lastAbsSymbolChildren := Some c\<rparr>)"
  "wf s \<Longrightarrow> wf (s\<lparr>defaultSymbolKind := k\<rparr>)"
  unfolding wf_nth by auto

lemma heap_simps [simp]:
  "length (heap (snd (newSymbol nm d k ln s))) = Suc (length (heap s))"
  "length (heap (pushChild p c s)) = length (heap s)"
  "length (heap (pushRoot c s)) = length (heap s)"
  "length (heap (addToLastModule c s)) = length (heap s)"
  "length (heap (popModule s)) = length (heap s)"
  by (simp_all add: prim_defs)

lemma newSymbol_pair: "newSymbol nm d k ln s = (length (heap s), snd (newSymbol nm d k ln s))"
  by (simp add: newSymbol_def)

lemma fst_newSymbol [simp]: "fst (newSymbol nm d k ln s) = length (heap s)"
  by (simp add: newSymbol_def)

lemma labelPart_wf: "wf s \<Longrightarrow> wf (fst (labelPart rx cfg ln l s))"
  unfolding labelPart_def Let_def split_beta
  by (auto split: option.splits
           intro!: wf_vars wf_pushChild wf_pushRoot wf_addToLastModule wf_newSymbol)

lemma ca65Part_wf: "wf s \<Longrightarrow> wf (ca65Part rx ln lc s)"
  unfolding ca65Part_def Let_def split_beta
  by (auto split: option.splits
           intro!: wf_vars wf_popModule wf_addToLastModule wf_newSymbol)

lemma macroPart_wf: "wf s \<Longrightarrow> wf (macroPart p ln lc s)"
  unfolding macroPart_def Let_def split_beta
  by (auto split: option.splits intro!: wf_pushRoot wf_newSymbol)

lemma modulePart_wf: "wf s \<Longrightarrow> wf (modulePart m ln s)"
  unfolding modulePart_def Let_def split_beta
  by (auto split: option.splits
           intro!: wf_vars wf_popModule wf_addToLastModule wf_newSymbol)

lemma wf_setKind: "wf s \<Longrightarrow> wf (s\<lparr>heap := fold (setKind k d) xs (heap s)\<rparr>)"
  unfolding wf_nth by (auto simp: setKind_keeps)

lemma classifyPart_wf: "wf s \<Longrightarrow> wf (classifyPart rx lc s)"
  unfolding classifyPart_def Let_def
  by (auto split: option.splits intro!: wf_vars wf_setKind)

lemma restOfLine_wf: "wf s \<Longrightarrow> wf (restOfLine rx ln lc s)"
  unfolding restOfLine_def
  by (auto split: option.splits intro: ca65Part_wf macroPart_wf modulePart_wf classifyPart_wf)

lemma processLine_wf: "wf s \<Longrightarrow> wf (processLine rx cfg ln l s)"
  unfolding processLine_split by (intro restOfLine_wf labelPart_wf)

lemma scanLines_wf: "wf s \<Longrightarrow> wf (scanLines rx cfg ln ls s)"
  by (induction ls arbitrary: ln s) (simp_all add: processLine_wf)

lemma initial_wf: "wf initial"
  by (simp add: wf_def initial_def)

subsection \<open>Names of the label symbols\<close>

lemma setKind_kind:
  "i < length h \<Longrightarrow> kind (fold (setKind k d) xs h ! i) = (if i \<in> set xs then k else kind (h ! i))"
  by (induction xs arbitrary: h) (auto simp: setKind_def nth_update_at)

lemma labelsOk_nth:
  "labelsOk cfg s =
     ((\<forall>j < length (heap s). labelKind (kind (heap s ! j)) \<longrightarrow> name (heap s ! j) \<notin> set (excludes cfg))
      \<and> (\<forall>i \<in> set (lastSymbols s). i < length (heap s) \<and> name (heap s ! i) \<notin> set (excludes cfg)))"
  by (simp add: labelsOk_def all_set_conv_all_nth)

lemma labelsOk_pushChild [simp]: "labelsOk cfg (pushChild p c s) = labelsOk cfg s"
  unfolding labelsOk_nth pushChild_def by (auto simp: nth_update_at)

lemma labelsOk_pushRoot [simp]: "labelsOk cfg (pushRoot c s) = labelsOk cfg s"
  unfolding labelsOk_nth pushRoot_def by simp

lemma labelsOk_addToLastModule [simp]: "labelsOk cfg (addToLastModule c s) = labelsOk cfg s"
  by (simp add: addToLastModule_def)

lemma labelsOk_popModule [simp]: "labelsOk cfg (popModule s) = labelsOk cfg s"
  unfolding labelsOk_nth popModule_def by simp

lemma labelsOk_newSymbol:
  "labelsOk cfg s \<Longrightarrow> (labelKind k \<longrightarrow> nm \<notin> set (excludes cfg))
     \<Longrightarrow> labelsOk cfg (snd (newSymbol nm d k ln s))"
  unfolding labelsOk_nth newSymbol_def by (auto simp: nth_append less_Suc_eq)

lemma labelsOk_vars [simp]:
  "labelsOk cfg (s\<lparr>lastModules := ms\<rparr>) = labelsOk cfg s"
  "labelsOk cfg (s\<lparr>lastAbsSymbolChildren := a\<rparr>) = labelsOk cfg s"
  "labelsOk cfg (s\<lparr>defaultSymbolKind := k\<rparr>) = labelsOk cfg s"
  "labelsOk cfg (s\<lparr>lastSymbol := x\<rparr>) = labelsOk cfg s"
  unfolding labelsOk_nth by simp_all

lemma labelsOk_reset: "labelsOk cfg s \<Longrightarrow> labelsOk cfg (s\<lparr>lastSymbols := []\<rparr>)"
  unfolding labelsOk_nth by simp

lemma labelsOk_pending:
  "labelsOk cfg s1 \<Longrightarrow> c < length (heap s1) \<Longrightarrow> name (heap s1 ! c) \<notin> set (excludes cfg)
     \<Longrightarrow> labelsOk cfg (s1\<lparr>lastSymbol := x, lastSymbols := lastSymbols s1 @ [c]\<rparr>)"
  unfolding labelsOk_nth by auto

lemma name_newSymbol [simp]:
  "name (heap (snd (newSymbol nm d k ln s)) ! length (heap s)) = nm"
  by (simp add: newSymbol_def)

lemma labelPart_labelsOk: "labelsOk cfg s \<Longrightarrow> labelsOk cfg (fst (labelPart rx cfg ln l s))"
  unfolding labelPart_def Let_def split_beta
  by (auto split: option.splits intro!: labelsOk_pending labelsOk_newSymbol)

lemma ca65Part_labelsOk: "labelsOk cfg s \<Longrightarrow> labelsOk cfg (ca65Part rx ln lc s)"
  unfolding ca65Part_def Let_def split_beta
  by (auto split: option.splits intro!: labelsOk_newSymbol simp: labelKind_def)

lemma macroPart_labelsOk: "labelsOk cfg s \<Longrightarrow> labelsOk cfg (macroPart p ln lc s)"
  unfolding macroPart_def Let_def split_beta
  by (auto split: option.splits intro!: labelsOk_newSymbol simp: labelKind_def)

lemma modulePart_labelsOk: "labelsOk cfg s \<Longrightarrow> labelsOk cfg (modulePart m ln s)"
  unfolding modulePart_def Let_def split_beta
  by (auto split: option.splits intro!: labelsOk_newSymbol labelsOk_reset simp: labelKind_def)

lemma labelsOk_setKind:
  "labelsOk cfg s \<Longrightarrow> labelsOk cfg (s\<lparr>heap := fold (setKind k d) (lastSymbols s) (heap s)\<rparr>)"
  unfolding labelsOk_nth by (auto simp: setKind_keeps setKind_kind)

lemma classifyPart_labelsOk: "labelsOk cfg s \<Longrightarrow> labelsOk cfg (classifyPart rx lc s)"
  unfolding classifyPart_def Let_def
  by (auto split: option.splits intro!: labelsOk_reset labelsOk_setKind)

lemma restOfLine_labelsOk: "labelsOk cfg s \<Longrightarrow> labelsOk cfg (restOfLine rx ln lc s)"
  unfolding restOfLine_def
  by (auto split: option.splits
           intro: ca65Part_labelsOk macroPart_labelsOk modulePart_labelsOk classifyPart_labelsOk)

lemma processLine_labelsOk: "labelsOk cfg s \<Longrightarrow> labelsOk cfg (processLine rx cfg ln l s)"
  unfolding processLine_split by (intro restOfLine_labelsOk labelPart_labelsOk)

lemma scanLines_labelsOk: "labelsOk cfg s \<Longrightarrow> labelsOk cfg (scanLines rx cfg ln ls s)"
  by (induction ls arbitrary: ln s) (simp_all add: processLine_labelsOk)

lemma initial_labelsOk: "labelsOk cfg initial"
  by (simp add: labelsOk_def initial_def)

subsection \<open>The parent of relative labels\<close>

lemma labelPart_lastAbs:
  "lastAbsSymbolChildren (fst (labelPart rx cfg ln l s))
     = (if declaresAbsolute rx cfg l then Some (length (heap s)) else lastAbsSymbolChildren s)"
  by (simp add: labelPart_def declaresAbsolute_def keptLabel_def Let_def prim_defs
           split: option.splits)

lemma ca65Part_lastAbs:
  "lastAbsSymbolChildren (ca65Part rx ln lc s)
     = (if ca65Closes rx lc then None else lastAbsSymbolChildren s)"
  by (simp add: ca65Part_def ca65Closes_def Let_def prim_defs split: option.splits)

lemma macroPart_lastAbs: "lastAbsSymbolChildren (macroPart p ln lc s) = lastAbsSymbolChildren s"
  by (simp add: macroPart_def Let_def prim_defs split: option.splits)

lemma modulePart_lastAbs:
  "lastAbsSymbolChildren (modulePart m ln s)
     = (if isEndKeyword m then None else lastAbsSymbolChildren s)"
  by (simp add: modulePart_def isEndKeyword_def Let_def prim_defs split: option.splits)

lemma classifyPart_lastAbs: "lastAbsSymbolChildren (classifyPart rx lc s) = lastAbsSymbolChildren s"
  by (simp add: classifyPart_def Let_def split: option.splits)

lemma restOfLine_lastAbs:
  "lastAbsSymbolChildren (restOfLine rx ln lc s)
     = (if ca65Closes rx lc \<or> (case moduleSeen rx lc of None \<Rightarrow> False | Some m \<Rightarrow> isEndKeyword m)
        then None else lastAbsSymbolChildren s)"
  by (simp add: restOfLine_def moduleSeen_def macroPart_lastAbs modulePart_lastAbs
        classifyPart_lastAbs ca65Part_lastAbs split: option.splits)

lemma processLine_lastAbs:
  "lastAbsSymbolChildren (processLine rx cfg ln l s)
     = (if resetsParent rx cfg l then None
        else if declaresAbsolute rx cfg l then Some (length (heap s))
        else lastAbsSymbolChildren s)"
  by (simp add: processLine_split restOfLine_lastAbs labelPart_lastAbs resetsParent_def)

subsection \<open>The number of scope frames\<close>

lemma labelPart_lastModules: "lastModules (fst (labelPart rx cfg ln l s)) = lastModules s"
  by (simp add: labelPart_def Let_def prim_defs split: option.splits)

lemma ca65Part_depth:
  "length (lastModules (ca65Part rx ln lc s))
     = (if ca65Opens rx lc then Suc (length (lastModules s))
        else if ca65Closes rx lc then length (lastModules s) - 1
        else length (lastModules s))"
  by (simp add: ca65Part_def ca65Opens_def ca65Closes_def Let_def prim_defs split: option.splits)

lemma macroPart_lastModules: "lastModules (macroPart p ln lc s) = lastModules s"
  by (simp add: macroPart_def Let_def prim_defs split: option.splits)

lemma classifyPart_lastModules: "lastModules (classifyPart rx lc s) = lastModules s"
  by (simp add: classifyPart_def Let_def split: option.splits)

lemma modulePart_depth:
  "length (lastModules (modulePart m ln s))
     = (if grp2 m \<noteq> [] then (if isEndKeyword m then length (lastModules s) else Suc (length (lastModules s)))
        else (if isEndKeyword m then length (lastModules s) - 1 else length (lastModules s)))"
  by (simp add: modulePart_def isEndKeyword_def Let_def prim_defs split: option.splits)

lemma restOfLine_depth:
  "length (lastModules (restOfLine rx ln lc s))
     = (case moduleSeen rx lc of
          None \<Rightarrow> length (lastModules (ca65Part rx ln lc s))
        | Some m \<Rightarrow> length (lastModules (modulePart m ln (ca65Part rx ln lc s))))"
  by (simp add: restOfLine_def moduleSeen_def macroPart_lastModules classifyPart_lastModules
           split: option.splits)

lemma processLine_opens:
  "opensFrame rx cfg l \<Longrightarrow>
     length (lastModules (processLine rx cfg ln l s)) = Suc (length (lastModules s))"
  by (auto simp: processLine_split restOfLine_depth opensFrame_def Let_def modulePart_depth
        ca65Part_depth labelPart_lastModules split: option.splits)

lemma processLine_closes:
  "closesFrame rx cfg l \<Longrightarrow>
     length (lastModules (processLine rx cfg ln l s)) = length (lastModules s) - 1"
  by (auto simp: processLine_split restOfLine_depth closesFrame_def Let_def modulePart_depth
        ca65Part_depth labelPart_lastModules ca65Opens_def ca65Closes_def split: option.splits)

lemma attached_nth:
  "attached s i = (i \<in> set (symbols s) \<or> (\<exists>j < length (heap s). i \<in> set (children (heap s ! j))))"
  unfolding attached_def by (metis in_set_conv_nth)

lemma grows_unattached:
  assumes "grows n s s'" "i < n" "\<not> attached s i"
  shows "\<not> attached s' i"
  using assms unfolding grows_def attached_nth by blast

lemma grows_childOfOnly:
  assumes "grows n s s'" "i < n" "childOfOnly s i p"
  shows "childOfOnly s' i p"
proof -
  from assms(3) have a: "i \<notin> set (symbols s)" "p < length (heap s)"
    "\<forall>j < length (heap s). (i \<in> set (children (heap s ! j))) = (j = p)"
    by (simp_all add: childOfOnly_def)
  from assms(1) have g: "length (heap s) \<le> length (heap s')"
    "\<forall>j < length (heap s). set (children (heap s ! j)) \<subseteq> set (children (heap s' ! j))"
    "\<forall>c < n. c \<in> set (symbols s') \<longrightarrow> c \<in> set (symbols s)"
    "\<forall>c < n. \<forall>j < length (heap s'). c \<in> set (children (heap s' ! j))
        \<longrightarrow> j < length (heap s) \<and> c \<in> set (children (heap s ! j))"
    by (simp_all add: grows_def)
  have 1: "i \<notin> set (symbols s')" using g(3) assms(2) a(1) by blast
  have 2: "p < length (heap s')" using a(2) g(1) by simp
  have 3: "(i \<in> set (children (heap s' ! j))) = (j = p)" if "j < length (heap s')" for j
  proof
    assume "i \<in> set (children (heap s' ! j))"
    with g(4) assms(2) that have "j < length (heap s) \<and> i \<in> set (children (heap s ! j))" by blast
    with a(3) show "j = p" by blast
  next
    assume "j = p"
    with a(2) a(3) have "i \<in> set (children (heap s ! p))" by blast
    with g(2) a(2) \<open>j = p\<close> show "i \<in> set (children (heap s' ! j))" by blast
  qed
  show ?thesis unfolding childOfOnly_def using 1 2 3 by blast
qed

lemma grows_name: "grows n s s' \<Longrightarrow> i < length (heap s) \<Longrightarrow> name (heap s' ! i) = name (heap s ! i)"
  by (simp add: grows_def)

text \<open>The label part on a relative label.\<close>

lemma labelPart_relative:
  assumes "keptLabel rx cfg l = Some lb" "startsWith lb ''.''" "wf s"
  shows "length (heap (fst (labelPart rx cfg ln l s))) = Suc (length (heap s))"
    and "name (heap (fst (labelPart rx cfg ln l s)) ! length (heap s)) = lb"
    and "lastAbsSymbolChildren s = None \<Longrightarrow> \<not> attached (fst (labelPart rx cfg ln l s)) (length (heap s))"
    and "lastAbsSymbolChildren s = Some p \<Longrightarrow> childOfOnly (fst (labelPart rx cfg ln l s)) (length (heap s)) p"
proof -
  obtain m where m: "regexLabel rx l = Some m" "grp1 m @ grp2 m \<notin> set (excludes cfg)"
      "lb = grp1 m @ grp2 m"
    using assms(1) by (auto simp: keptLabel_def split: option.splits if_splits)
  let ?n = "\<lparr>name = lb, detail = [], kind = defaultSymbolKind s, rangeLine = ln, children = []\<rparr>"
  let ?s1 = "fst (labelPart rx cfg ln l s)"
  have wfs: "\<forall>c \<in> set (symbols s). c < length (heap s)"
     "\<forall>j < length (heap s). \<forall>c \<in> set (children (heap s ! j)). c < length (heap s)"
     "\<forall>c. lastAbsSymbolChildren s = Some c \<longrightarrow> c < length (heap s)"
    using assms(3) by (simp_all add: wf_nth)
  have sy: "symbols ?s1 = symbols s"
    using m assms(2) by (simp add: labelPart_def Let_def prim_defs split: option.splits)
  have hp: "heap ?s1 = (case lastAbsSymbolChildren s of
                          None \<Rightarrow> heap s @ [?n]
                        | Some q \<Rightarrow> (heap s @ [?n])[q := ((heap s @ [?n]) ! q)
                                       \<lparr>children := children ((heap s @ [?n]) ! q) @ [length (heap s)]\<rparr>])"
    using m assms(2) by (simp add: labelPart_def Let_def prim_defs split: option.splits)
  show "length (heap ?s1) = Suc (length (heap s))"
    by (simp add: hp split: option.splits)
  show "name (heap ?s1 ! length (heap s)) = lb"
    using wfs(3) by (auto simp: hp nth_update_at nth_append split: option.splits)
  show "\<not> attached ?s1 (length (heap s))" if "lastAbsSymbolChildren s = None"
    using that wfs(1,2) by (auto simp: attached_nth sy hp nth_append less_Suc_eq)
  show "childOfOnly ?s1 (length (heap s)) p" if "lastAbsSymbolChildren s = Some p"
  proof -
    have pl: "p < length (heap s)" using that wfs(3) by simp
    have "(length (heap s) \<in> set (children (heap ?s1 ! j))) = (j = p)" if "j < Suc (length (heap s))" for j
      using that pl wfs(2) \<open>lastAbsSymbolChildren s = Some p\<close>
      by (auto simp: hp nth_update_at nth_append less_Suc_eq)
    moreover have "length (heap s) \<notin> set (symbols ?s1)" using wfs(1) sy by auto
    moreover have "length (heap ?s1) = Suc (length (heap s))" by (simp add: hp split: option.splits)
    ultimately show ?thesis using pl by (simp add: childOfOnly_def)
  qed
qed

lemma labelPart_kept:
  assumes "keptLabel rx cfg l = Some lb" "wf s"
  shows "length (heap (fst (labelPart rx cfg ln l s))) = Suc (length (heap s))"
    and "name (heap (fst (labelPart rx cfg ln l s)) ! length (heap s)) = lb"
proof -
  obtain m where m: "regexLabel rx l = Some m" "grp1 m @ grp2 m \<notin> set (excludes cfg)"
      "lb = grp1 m @ grp2 m"
    using assms(1) by (auto simp: keptLabel_def split: option.splits if_splits)
  have wfs: "\<forall>c. lastAbsSymbolChildren s = Some c \<longrightarrow> c < length (heap s)"
    "\<forall>c \<in> set (lastModules s). c < length (heap s)"
    using assms(2) by (simp_all add: wf_nth)
  show "length (heap (fst (labelPart rx cfg ln l s))) = Suc (length (heap s))"
    using m by (simp add: labelPart_def Let_def prim_defs split: option.splits)
  have "lastModules s \<noteq> [] \<Longrightarrow> last (lastModules s) < length (heap s)"
    using wfs(2) by simp
  then show "name (heap (fst (labelPart rx cfg ln l s)) ! length (heap s)) = lb"
    using m wfs(1)
    by (auto simp: labelPart_def Let_def prim_defs nth_update_at nth_append split: option.splits)
qed

lemma processLine_kept:
  assumes "keptLabel rx cfg l = Some lb" "wf s"
  shows "length (heap s) < length (heap (processLine rx cfg ln l s))"
    and "name (heap (processLine rx cfg ln l s) ! length (heap s)) = lb"
proof -
  let ?s1 = "fst (labelPart rx cfg ln l s)"
  have g: "grows (length (heap ?s1)) ?s1 (processLine rx cfg ln l s)"
    unfolding processLine_split by (rule restOfLine_grows)
  have l1: "length (heap ?s1) = Suc (length (heap s))" using assms by (rule labelPart_kept)
  from grows_length [OF g] l1
  show "length (heap s) < length (heap (processLine rx cfg ln l s))" by simp
  have "name (heap (processLine rx cfg ln l s) ! length (heap s)) = name (heap ?s1 ! length (heap s))"
    using g l1 by (intro grows_name) simp_all
  then show "name (heap (processLine rx cfg ln l s) ! length (heap s)) = lb"
    using labelPart_kept(2) [OF assms] by simp
qed

lemma processLine_relative_none:
  assumes "keptLabel rx cfg l = Some lb" "startsWith lb ''.''" "wf s" "lastAbsSymbolChildren s = None"
  shows "\<not> attached (processLine rx cfg ln l s) (length (heap s))"
proof -
  let ?s1 = "fst (labelPart rx cfg ln l s)"
  have g: "grows (length (heap ?s1)) ?s1 (processLine rx cfg ln l s)"
    unfolding processLine_split by (rule restOfLine_grows)
  have l1: "length (heap ?s1) = Suc (length (heap s))" using assms(1,3) by (rule labelPart_kept)
  have "\<not> attached ?s1 (length (heap s))" using assms by (rule labelPart_relative(3))
  with g show ?thesis using l1 by (intro grows_unattached [OF g]) simp_all
qed

lemma processLine_relative_some:
  assumes "keptLabel rx cfg l = Some lb" "startsWith lb ''.''" "wf s" "lastAbsSymbolChildren s = Some p"
  shows "childOfOnly (processLine rx cfg ln l s) (length (heap s)) p"
proof -
  let ?s1 = "fst (labelPart rx cfg ln l s)"
  have g: "grows (length (heap ?s1)) ?s1 (processLine rx cfg ln l s)"
    unfolding processLine_split by (rule restOfLine_grows)
  have l1: "length (heap ?s1) = Suc (length (heap s))" using assms(1,3) by (rule labelPart_kept)
  have "childOfOnly ?s1 (length (heap s)) p" using assms by (rule labelPart_relative(4))
  then show ?thesis using l1 by (intro grows_childOfOnly [OF g]) simp_all
qed

lemma scanLines_no_parent:
  "\<forall>b \<in> set bs. \<not> declaresAbsolute rx cfg b \<Longrightarrow> lastAbsSymbolChildren s = None
     \<Longrightarrow> lastAbsSymbolChildren (scanLines rx cfg ln bs s) = None"
  by (induction bs arbitrary: ln s) (simp_all add: processLine_lastAbs)

lemma scanLines_keeps_parent:
  "\<forall>b \<in> set bs. \<not> declaresAbsolute rx cfg b \<and> \<not> resetsParent rx cfg b
     \<Longrightarrow> lastAbsSymbolChildren (scanLines rx cfg ln bs s) = lastAbsSymbolChildren s"
  by (induction bs arbitrary: ln s) (simp_all add: processLine_lastAbs)

lemma no_parent_cases:
  assumes "(\<forall>b \<in> set before. \<not> declaresAbsolute rx cfg b)
           \<or> (\<exists>b1 e b2. before = b1 @ e # b2 \<and> resetsParent rx cfg e
                 \<and> (\<forall>b \<in> set b2. \<not> declaresAbsolute rx cfg b))"
  shows "lastAbsSymbolChildren (scanLines rx cfg 0 before initial) = None"
  using assms
proof
  assume "\<forall>b \<in> set before. \<not> declaresAbsolute rx cfg b"
  then show ?thesis by (rule scanLines_no_parent) (simp add: initial_def)
next
  assume "\<exists>b1 e b2. before = b1 @ e # b2 \<and> resetsParent rx cfg e
            \<and> (\<forall>b \<in> set b2. \<not> declaresAbsolute rx cfg b)"
  then obtain b1 e b2 where b: "before = b1 @ e # b2" "resetsParent rx cfg e"
      "\<forall>b \<in> set b2. \<not> declaresAbsolute rx cfg b" by blast
  show ?thesis
    unfolding b(1) scanLines_append
    by (simp add: scanLines_no_parent [OF b(3)] processLine_lastAbs b(2))
qed

lemma dropped_general:
  assumes rel: "declaresRelative rx cfg l"
    and nop: "lastAbsSymbolChildren (scanLines rx cfg 0 before initial) = None"
  shows "length (heap (scanLines rx cfg 0 before initial))
           < length (heap (scanLines rx cfg 0 (before @ l # after) initial))
       \<and> keptLabel rx cfg l = Some (name (heap (scanLines rx cfg 0 (before @ l # after) initial)
                                        ! length (heap (scanLines rx cfg 0 before initial))))
       \<and> \<not> attached (scanLines rx cfg 0 (before @ l # after) initial)
                     (length (heap (scanLines rx cfg 0 before initial)))"
proof -
  let ?s = "scanLines rx cfg 0 before initial"
  let ?s' = "processLine rx cfg (length before) l ?s"
  let ?f = "scanLines rx cfg 0 (before @ l # after) initial"
  obtain lb where lb: "keptLabel rx cfg l = Some lb" "startsWith lb ''.''"
    using rel by (auto simp: declaresRelative_def split: option.splits)
  have w: "wf ?s" by (intro scanLines_wf initial_wf)
  have f: "?f = scanLines rx cfg (Suc (length before)) after ?s'"
    by (simp add: scanLines_append)
  have g: "grows (length (heap ?s')) ?s' ?f" unfolding f by (rule scanLines_grows)
  have lt: "length (heap ?s) < length (heap ?s')" using lb(1) w by (rule processLine_kept)
  have nm: "name (heap ?s' ! length (heap ?s)) = lb" using lb(1) w by (rule processLine_kept)
  have na: "\<not> attached ?s' (length (heap ?s))" using lb w nop by (rule processLine_relative_none)
  have 1: "length (heap ?s) < length (heap ?f)" using grows_length [OF g] lt by simp
  have 2: "name (heap ?f ! length (heap ?s)) = lb" using grows_name [OF g lt] nm by simp
  have 3: "\<not> attached ?f (length (heap ?s))" using g lt na by (rule grows_unattached)
  show ?thesis using 1 2 3 lb(1) by simp
qed

lemma attached_general:
  assumes ab: "declaresAbsolute rx cfg a" and nr: "\<not> resetsParent rx cfg a"
    and mid: "\<forall>m \<in> set mid. \<not> declaresAbsolute rx cfg m \<and> \<not> resetsParent rx cfg m"
    and rel: "declaresRelative rx cfg r"
  shows "keptLabel rx cfg a
           = Some (name (heap (scanLines rx cfg 0 (before @ a # mid @ r # after) initial)
                         ! length (heap (scanLines rx cfg 0 before initial))))
       \<and> keptLabel rx cfg r
           = Some (name (heap (scanLines rx cfg 0 (before @ a # mid @ r # after) initial)
                         ! length (heap (scanLines rx cfg 0 (before @ a # mid) initial))))
       \<and> childOfOnly (scanLines rx cfg 0 (before @ a # mid @ r # after) initial)
            (length (heap (scanLines rx cfg 0 (before @ a # mid) initial)))
            (length (heap (scanLines rx cfg 0 before initial)))"
proof -
  let ?s0 = "scanLines rx cfg 0 before initial"
  let ?sa = "processLine rx cfg (length before) a ?s0"
  let ?s1 = "scanLines rx cfg 0 (before @ a # mid) initial"
  let ?s2 = "processLine rx cfg (length (before @ a # mid)) r ?s1"
  let ?f = "scanLines rx cfg 0 (before @ a # mid @ r # after) initial"
  obtain la where la: "keptLabel rx cfg a = Some la"
    using ab by (auto simp: declaresAbsolute_def split: option.splits)
  obtain lb where lb: "keptLabel rx cfg r = Some lb" "startsWith lb ''.''"
    using rel by (auto simp: declaresRelative_def split: option.splits)
  have w0: "wf ?s0" by (intro scanLines_wf initial_wf)
  have w1: "wf ?s1" by (intro scanLines_wf initial_wf)
  have s1: "?s1 = scanLines rx cfg (Suc (length before)) mid ?sa"
    by (simp add: scanLines_append)
  have f: "?f = scanLines rx cfg (Suc (length (before @ a # mid))) after ?s2"
    using scanLines_append [of rx cfg 0 "before @ a # mid" "r # after" initial] by simp
  have pa: "lastAbsSymbolChildren ?sa = Some (length (heap ?s0))"
    using ab nr by (simp add: processLine_lastAbs)
  have p1: "lastAbsSymbolChildren ?s1 = Some (length (heap ?s0))"
    unfolding s1 using scanLines_keeps_parent [OF mid] pa by simp
  have lta: "length (heap ?s0) < length (heap ?sa)" using la w0 by (rule processLine_kept)
  have nma: "name (heap ?sa ! length (heap ?s0)) = la" using la w0 by (rule processLine_kept)
  have ga: "grows (length (heap ?sa)) ?sa ?f"
  proof -
    have "?f = scanLines rx cfg (Suc (length before)) (mid @ r # after) ?sa"
      by (simp add: scanLines_append)
    then show ?thesis by (simp add: scanLines_grows)
  qed
  have A: "name (heap ?f ! length (heap ?s0)) = la" using grows_name [OF ga lta] nma by simp
  have lt2: "length (heap ?s1) < length (heap ?s2)" using lb(1) w1 by (rule processLine_kept)
  have nm2: "name (heap ?s2 ! length (heap ?s1)) = lb" using lb(1) w1 by (rule processLine_kept)
  have ch2: "childOfOnly ?s2 (length (heap ?s1)) (length (heap ?s0))"
    using lb w1 p1 by (rule processLine_relative_some)
  have g2: "grows (length (heap ?s2)) ?s2 ?f" unfolding f by (rule scanLines_grows)
  have B: "name (heap ?f ! length (heap ?s1)) = lb" using grows_name [OF g2 lt2] nm2 by simp
  have C: "childOfOnly ?f (length (heap ?s1)) (length (heap ?s0))"
    using g2 lt2 ch2 by (rule grows_childOfOnly)
  show ?thesis using A B C la lb(1) by simp
qed

section \<open>Relative labels\<close>

text \<open>
  C2 (as amended). A relative label that is not excluded becomes a child of the nearest
  preceding absolute label, and of nothing else, whatever scope frames are open, provided
  that neither the line of that absolute label nor a line between the two ends a CA65
  block or is seen as ENDMODULE or ENDS. Here \<open>a\<close> is the line of the absolute label, \<open>mid\<close>
  the lines between, \<open>r\<close> the line of the relative label; the symbol of a label is the
  object created first on its line.
\<close>

theorem relative_label_attaches_to_absolute_label:
  assumes "declaresAbsolute rx cfg a" and "\<not> resetsParent rx cfg a"
    and "\<forall>m \<in> set mid. \<not> declaresAbsolute rx cfg m \<and> \<not> resetsParent rx cfg m"
    and "declaresRelative rx cfg r"
  shows "keptLabel rx cfg a
           = Some (name (heap (scanLines rx cfg 0 (before @ a # mid @ r # after) initial)
                         ! length (heap (scanLines rx cfg 0 before initial))))
       \<and> keptLabel rx cfg r
           = Some (name (heap (scanLines rx cfg 0 (before @ a # mid @ r # after) initial)
                         ! length (heap (scanLines rx cfg 0 (before @ a # mid) initial))))
       \<and> childOfOnly (scanLines rx cfg 0 (before @ a # mid @ r # after) initial)
            (length (heap (scanLines rx cfg 0 (before @ a # mid) initial)))
            (length (heap (scanLines rx cfg 0 before initial)))"
  using assms by (rule attached_general)

theorem relative_label_attaches_to_absolute_label_witness:
  "declaresAbsolute (samplePatterns False) sampleConfig ''bar: nop''
   \<and> \<not> resetsParent (samplePatterns False) sampleConfig ''bar: nop''
   \<and> \<not> declaresAbsolute (samplePatterns False) sampleConfig ''.proc inner''
   \<and> \<not> resetsParent (samplePatterns False) sampleConfig ''.proc inner''
   \<and> declaresRelative (samplePatterns False) sampleConfig ''.loop: nop''
   \<and> name (heap (scanLines (samplePatterns False) sampleConfig 0
                    [''MODULE foo'', ''bar: nop'', ''.proc inner'', ''.loop: nop'', ''ENDMODULE''] initial) ! 1)
       = ''bar''
   \<and> name (heap (scanLines (samplePatterns False) sampleConfig 0
                    [''MODULE foo'', ''bar: nop'', ''.proc inner'', ''.loop: nop'', ''ENDMODULE''] initial) ! 3)
       = ''.loop''
   \<and> childOfOnly (scanLines (samplePatterns False) sampleConfig 0
                    [''MODULE foo'', ''bar: nop'', ''.proc inner'', ''.loop: nop'', ''ENDMODULE''] initial) 3 1"
proof -
  have a: "declaresAbsolute (samplePatterns False) sampleConfig ''bar: nop''" by code_simp
  have na: "\<not> resetsParent (samplePatterns False) sampleConfig ''bar: nop''" by code_simp
  have m1: "\<not> declaresAbsolute (samplePatterns False) sampleConfig ''.proc inner''" by code_simp
  have m2: "\<not> resetsParent (samplePatterns False) sampleConfig ''.proc inner''" by code_simp
  have r: "declaresRelative (samplePatterns False) sampleConfig ''.loop: nop''" by code_simp
  have ka: "keptLabel (samplePatterns False) sampleConfig ''bar: nop'' = Some ''bar''" by code_simp
  have kr: "keptLabel (samplePatterns False) sampleConfig ''.loop: nop'' = Some ''.loop''" by code_simp
  have n0: "length (heap (scanLines (samplePatterns False) sampleConfig 0 [''MODULE foo''] initial)) = 1"
    by code_simp
  have n1: "length (heap (scanLines (samplePatterns False) sampleConfig 0
                            [''MODULE foo'', ''bar: nop'', ''.proc inner''] initial)) = 3"
    by code_simp
  have mid: "\<forall>m \<in> set [''.proc inner'']. \<not> declaresAbsolute (samplePatterns False) sampleConfig m
                \<and> \<not> resetsParent (samplePatterns False) sampleConfig m"
    using m1 m2 by simp
  show ?thesis
    using relative_label_attaches_to_absolute_label [OF a na mid r, of "[''MODULE foo'']" "[''ENDMODULE'']"]
          a na m1 m2 r ka kr n0 n1
    by simp
qed

text \<open>
  C2 as stated fails when a line that ends a block stands between the two labels: the
  absolute label \<^verbatim>\<open>bar\<close> is the nearest preceding one for \<^verbatim>\<open>.loop\<close>, and \<^verbatim>\<open>.loop\<close> is its
  child without the line \<^verbatim>\<open>.endproc\<close> but not with it.
\<close>

theorem relative_label_after_block_end_not_attached:
  "declaresAbsolute (samplePatterns False) sampleConfig ''bar: nop''
   \<and> declaresRelative (samplePatterns False) sampleConfig ''.loop: nop''
   \<and> sampleOutline False [''bar: nop'', ''.endproc'', ''.loop: nop'']
       = Some [DocumentSymbol ''bar'' [] SymbolKind_Function 0 []]
   \<and> sampleOutline False [''bar: nop'', ''.loop: nop'']
       = Some [DocumentSymbol ''bar'' [] SymbolKind_Function 0
                 [DocumentSymbol ''.loop'' [] SymbolKind_Function 1 []]]"
  by code_simp

text \<open>
  A relative label that is not excluded and stands before any absolute label, or after a
  line on which the scan clears \<open>lastAbsSymbolChildren\<close> (the end of a CA65 block, or an
  ENDMODULE or ENDS that the scan gets to see) and before the next absolute label, gets a
  symbol (the object created first on its line, with the label as its name) that is
  attached nowhere: it is neither in the returned array nor a child of any symbol.
\<close>

lemma relative_label_without_parent_is_dropped:
  assumes "declaresRelative rx cfg l"
    and "(\<forall>b \<in> set before. \<not> declaresAbsolute rx cfg b)
         \<or> (\<exists>b1 e b2. before = b1 @ e # b2 \<and> resetsParent rx cfg e
               \<and> (\<forall>b \<in> set b2. \<not> declaresAbsolute rx cfg b))"
  shows "length (heap (scanLines rx cfg 0 before initial))
           < length (heap (scanLines rx cfg 0 (before @ l # after) initial))
       \<and> keptLabel rx cfg l = Some (name (heap (scanLines rx cfg 0 (before @ l # after) initial)
                                        ! length (heap (scanLines rx cfg 0 before initial))))
       \<and> \<not> attached (scanLines rx cfg 0 (before @ l # after) initial)
                     (length (heap (scanLines rx cfg 0 before initial)))"
  using assms(1) no_parent_cases [OF assms(2)] by (rule dropped_general)

lemma relative_label_without_parent_is_dropped_sample:
  "declaresRelative (samplePatterns False) sampleConfig ''.loop: nop''
   \<and> resetsParent (samplePatterns False) sampleConfig ''.endproc''
   \<and> keptLabel (samplePatterns False) sampleConfig ''.loop: nop''
       = Some (name (heap (scanLines (samplePatterns False) sampleConfig 0
                             [''bar: nop'', ''.endproc'', ''.loop: nop'', ''nop''] initial) ! 1))
   \<and> \<not> attached (scanLines (samplePatterns False) sampleConfig 0
                    [''bar: nop'', ''.endproc'', ''.loop: nop'', ''nop''] initial) 1"
proof -
  have r: "declaresRelative (samplePatterns False) sampleConfig ''.loop: nop''" by code_simp
  have e: "resetsParent (samplePatterns False) sampleConfig ''.endproc''" by code_simp
  have n: "length (heap (scanLines (samplePatterns False) sampleConfig 0
                           [''bar: nop'', ''.endproc''] initial)) = 1" by code_simp
  have d: "(\<forall>b \<in> set [''bar: nop'', ''.endproc'']. \<not> declaresAbsolute (samplePatterns False) sampleConfig b)
         \<or> (\<exists>b1 e b2. [''bar: nop'', ''.endproc''] = b1 @ e # b2
               \<and> resetsParent (samplePatterns False) sampleConfig e
               \<and> (\<forall>b \<in> set b2. \<not> declaresAbsolute (samplePatterns False) sampleConfig b))"
  proof (rule disjI2, intro exI conjI)
    show "[''bar: nop'', ''.endproc''] = [''bar: nop''] @ ''.endproc'' # []" by simp
    show "resetsParent (samplePatterns False) sampleConfig ''.endproc''" by (rule e)
    show "\<forall>b \<in> set []. \<not> declaresAbsolute (samplePatterns False) sampleConfig b" by simp
  qed
  show ?thesis
    using relative_label_without_parent_is_dropped [OF r d, of "[''nop'']"] r e n by simp
qed

text \<open>
  C9, evaluated where the code departs from it. The lines \<^verbatim>\<open>ENDMODULE\<close> and \<^verbatim>\<open>ENDS\<close> match the
  MODULE and STRUCT patterns as end keywords, but with a macro pattern in the request the
  scan never looks at them: \<open>lastAbsSymbolChildren\<close> is kept, and the relative label
  \<^verbatim>\<open>.loop\<close> after the end directive is attached to \<^verbatim>\<open>bar\<close>. With no macro pattern it is
  dropped, as the claim says. (\<open>relative_label_without_parent_is_dropped\<close> is the general
  fact, for the lines on which the scan does clear the pointer.)
\<close>

theorem relative_label_after_module_end_stays_attached:
  "declaresAbsolute (samplePatterns True) sampleConfig ''bar: nop''
   \<and> declaresRelative (samplePatterns True) sampleConfig ''.loop: nop''
   \<and> map_option isEndKeyword (matchModuleOrStruct (samplePatterns True) ''ENDMODULE'') = Some True
   \<and> map_option isEndKeyword (matchModuleOrStruct (samplePatterns True) ''ENDS'') = Some True
   \<and> sampleOutline True [''bar: nop'', ''ENDMODULE'', ''.loop: nop'']
       = Some [DocumentSymbol ''bar'' [] SymbolKind_Function 0
                 [DocumentSymbol ''.loop'' [] SymbolKind_Function 2 []]]
   \<and> sampleOutline True [''bar: nop'', ''ENDS'', ''.loop: nop'']
       = Some [DocumentSymbol ''bar'' [] SymbolKind_Function 0
                 [DocumentSymbol ''.loop'' [] SymbolKind_Function 2 []]]
   \<and> sampleOutline False [''bar: nop'', ''ENDMODULE'', ''.loop: nop'']
       = Some [DocumentSymbol ''bar'' [] SymbolKind_Function 0 []]
   \<and> sampleOutline False [''bar: nop'', ''ENDS'', ''.loop: nop'']
       = Some [DocumentSymbol ''bar'' [] SymbolKind_Function 0 []]"
  by code_simp

section \<open>Scope frames\<close>

lemma depthAfter_balanced:
  "(\<forall>k \<le> length ts. length (filter Not (take k ts)) \<le> d + length (filter id (take k ts)))
     \<Longrightarrow> depthAfter ts d = d + length (filter id ts) - length (filter Not ts)"
proof (induction ts arbitrary: d)
  case Nil
  show ?case by simp
next
  case (Cons t ts)
  have pre: "length (filter Not (take (Suc k) (t # ts))) \<le> d + length (filter id (take (Suc k) (t # ts)))"
    if "k \<le> length ts" for k
    using Cons.prems that by (metis Suc_le_mono length_Cons)
  show ?case
  proof (cases t)
    case True
    have "\<forall>k \<le> length ts. length (filter Not (take k ts)) \<le> Suc d + length (filter id (take k ts))"
      using pre True by auto
    from Cons.IH [OF this] True show ?thesis by simp
  next
    case False
    have d1: "1 \<le> d" using pre [of 0] False by simp
    have "\<forall>k \<le> length ts. length (filter Not (take k ts)) \<le> (d - 1) + length (filter id (take k ts))"
      using pre False d1 by fastforce
    from Cons.IH [OF this] False d1 show ?thesis by simp
  qed
qed

lemma scanLines_depth:
  "\<forall>l \<in> set ls. opensFrame rx cfg l \<or> closesFrame rx cfg l \<Longrightarrow>
     length (lastModules (scanLines rx cfg ln ls s))
       = depthAfter (map (opensFrame rx cfg) ls) (length (lastModules s))"
proof (induction ls arbitrary: ln s)
  case Nil
  show ?case by simp
next
  case (Cons l ls)
  then have IH: "length (lastModules (scanLines rx cfg (Suc ln) ls (processLine rx cfg ln l s)))
       = depthAfter (map (opensFrame rx cfg) ls) (length (lastModules (processLine rx cfg ln l s)))"
    by simp
  show ?case
  proof (cases "opensFrame rx cfg l")
    case True
    then show ?thesis using IH by (simp add: processLine_opens)
  next
    case False
    with Cons.prems have "closesFrame rx cfg l" by simp
    then show ?thesis using IH False by (simp add: processLine_closes)
  qed
qed

lemma opens_not_closes: "opensFrame rx cfg l \<Longrightarrow> \<not> closesFrame rx cfg l"
  by (auto simp: opensFrame_def closesFrame_def Let_def ca65Opens_def ca65Closes_def
           split: option.splits)

lemma filter_frames:
  "\<forall>l \<in> set ls. opensFrame rx cfg l \<or> closesFrame rx cfg l \<Longrightarrow>
     length (filter id (map (opensFrame rx cfg) ls)) = length (filter (opensFrame rx cfg) ls)
     \<and> length (filter Not (map (opensFrame rx cfg) ls)) = length (filter (closesFrame rx cfg) ls)"
  by (induction ls) (auto dest: opens_not_closes)

text \<open>
  C3 (as amended). For a sequence of lines each of which opens one scope frame (a CA65
  block directive, or a MODULE or STRUCT with a name) or closes one (the end of a CA65
  block, ENDMODULE or ENDS), the number of open frames after the scan is the running
  count in which a close without an open frame changes nothing; it is never negative, and
  it is opens minus closes when the closes never exceed the opens at any prefix.
\<close>

theorem open_scope_frames_count:
  assumes "\<forall>l \<in> set ls. opensFrame rx cfg l \<or> closesFrame rx cfg l"
  shows "length (lastModules (scanLines rx cfg 0 ls initial))
           = depthAfter (map (opensFrame rx cfg) ls) 0
       \<and> ((\<forall>k \<le> length ls. length (filter (closesFrame rx cfg) (take k ls))
                              \<le> length (filter (opensFrame rx cfg) (take k ls)))
          \<longrightarrow> length (lastModules (scanLines rx cfg 0 ls initial))
                = length (filter (opensFrame rx cfg) ls) - length (filter (closesFrame rx cfg) ls))"
proof -
  have d: "length (lastModules (scanLines rx cfg 0 ls initial))
             = depthAfter (map (opensFrame rx cfg) ls) 0"
    using scanLines_depth [OF assms, of 0 initial] by (simp add: initial_def)
  have b: "length (lastModules (scanLines rx cfg 0 ls initial))
             = length (filter (opensFrame rx cfg) ls) - length (filter (closesFrame rx cfg) ls)"
    if bal: "\<forall>k \<le> length ls. length (filter (closesFrame rx cfg) (take k ls))
                              \<le> length (filter (opensFrame rx cfg) (take k ls))"
  proof -
    have pre: "\<forall>k \<le> length (map (opensFrame rx cfg) ls).
                 length (filter Not (take k (map (opensFrame rx cfg) ls)))
                   \<le> 0 + length (filter id (take k (map (opensFrame rx cfg) ls)))"
    proof (intro allI impI)
      fix k assume k: "k \<le> length (map (opensFrame rx cfg) ls)"
      have sub: "\<forall>l \<in> set (take k ls). opensFrame rx cfg l \<or> closesFrame rx cfg l"
        using assms by (meson in_set_takeD)
      from filter_frames [OF sub] bal k
      show "length (filter Not (take k (map (opensFrame rx cfg) ls)))
                   \<le> 0 + length (filter id (take k (map (opensFrame rx cfg) ls)))"
        by (simp add: take_map)
    qed
    from depthAfter_balanced [OF pre] filter_frames [OF assms] d show ?thesis by simp
  qed
  show ?thesis using d b by blast
qed

theorem open_scope_frames_count_witness:
  "opensFrame (samplePatterns False) sampleConfig ''MODULE a''
   \<and> opensFrame (samplePatterns False) sampleConfig ''.proc b''
   \<and> closesFrame (samplePatterns False) sampleConfig ''.endproc''
   \<and> closesFrame (samplePatterns False) sampleConfig ''ENDMODULE''
   \<and> closesFrame (samplePatterns False) sampleConfig ''ENDS''
   \<and> opensFrame (samplePatterns False) sampleConfig ''STRUCT c''
   \<and> length (lastModules (scanLines (samplePatterns False) sampleConfig 0
        [''MODULE a'', ''.proc b'', ''.endproc'', ''ENDMODULE'', ''ENDS'', ''STRUCT c''] initial)) = 1"
proof -
  have o: "opensFrame (samplePatterns False) sampleConfig ''MODULE a''"
    "opensFrame (samplePatterns False) sampleConfig ''.proc b''"
    "opensFrame (samplePatterns False) sampleConfig ''STRUCT c''"
    by code_simp+
  have c: "closesFrame (samplePatterns False) sampleConfig ''.endproc''"
    "closesFrame (samplePatterns False) sampleConfig ''ENDMODULE''"
    "closesFrame (samplePatterns False) sampleConfig ''ENDS''"
    by code_simp+
  have no: "\<not> opensFrame (samplePatterns False) sampleConfig ''.endproc''"
    "\<not> opensFrame (samplePatterns False) sampleConfig ''ENDMODULE''"
    "\<not> opensFrame (samplePatterns False) sampleConfig ''ENDS''"
    using c by (auto dest: opens_not_closes)
  have h: "\<forall>l \<in> set [''MODULE a'', ''.proc b'', ''.endproc'', ''ENDMODULE'', ''ENDS'', ''STRUCT c''].
       opensFrame (samplePatterns False) sampleConfig l \<or> closesFrame (samplePatterns False) sampleConfig l"
    using o c by simp
  show ?thesis
    using open_scope_frames_count [OF h] o c no by simp
qed

text \<open>
  C3 as stated fails: in the sequence ENDMODULE, MODULE foo the closes exceed the opens
  at the first prefix, and one frame is open at the end, not none.
\<close>

theorem open_scope_frames_after_unmatched_close:
  "closesFrame (samplePatterns False) sampleConfig ''ENDMODULE''
   \<and> opensFrame (samplePatterns False) sampleConfig ''MODULE foo''
   \<and> length (lastModules (scanLines (samplePatterns False) sampleConfig 0
                 [''ENDMODULE'', ''MODULE foo''] initial)) = 1"
  by code_simp

section \<open>Excluded labels\<close>

lemma excluded_label_discarded:
  "regexLabel rx l = Some m \<Longrightarrow> grp1 m @ grp2 m \<in> set (excludes cfg)
     \<Longrightarrow> labelPart rx cfg ln l s = (s, l)"
  by (simp add: labelPart_def Let_def)

lemma scan_label_names:
  "n \<in> set (heap (scanLines rx cfg ln lines initial)) \<Longrightarrow> labelKind (kind n)
     \<Longrightarrow> name n \<notin> set (excludes cfg)"
  using scanLines_labelsOk [OF initial_labelsOk, of cfg rx ln lines]
  by (simp add: labelsOk_def)

lemma getWsSymbols_names:
  "x \<in> set (getWsSymbols env cfg query) \<Longrightarrow> symName x \<notin> set (labelsExcludes cfg)"
  by (auto simp: getWsSymbols_def Let_def)

text \<open>
  C10. The exclusion set of the scan is the configured list plus the entry \<^verbatim>\<open>include\<close>. For
  every configuration, a line whose label is exactly \<^verbatim>\<open>include\<close> leaves the state and the
  line contents as they are, and after the scan of any document no symbol with the kind of
  a label (Function, Constant, Field) is named \<^verbatim>\<open>include\<close>. The comparison is on the text
  as matched: \<^verbatim>\<open>Include\<close> is kept.
\<close>

theorem include_is_always_excluded:
  "set (excludes cfg) = insert ''include'' (set (labelsExcludes cfg))
   \<and> (\<forall>m. regexLabel rx l = Some m \<and> grp1 m @ grp2 m = ''include''
          \<longrightarrow> labelPart rx cfg ln l s = (s, l))
   \<and> (\<forall>n \<in> set (heap (scanLines rx cfg 0 lines initial)).
          labelKind (kind n) \<longrightarrow> name n \<noteq> ''include'')"
proof (intro conjI allI impI ballI)
  show "set (excludes cfg) = insert ''include'' (set (labelsExcludes cfg))"
    by (simp add: excludes_def)
next
  fix m assume "regexLabel rx l = Some m \<and> grp1 m @ grp2 m = ''include''"
  then show "labelPart rx cfg ln l s = (s, l)"
    by (intro excluded_label_discarded [of rx l m]) (simp_all add: excludes_def)
next
  fix n assume "n \<in> set (heap (scanLines rx cfg 0 lines initial))" "labelKind (kind n)"
  then have "name n \<notin> set (excludes cfg)" by (rule scan_label_names)
  then show "name n \<noteq> ''include''" by (auto simp: excludes_def)
qed

theorem include_is_always_excluded_witness:
  "regexLabel (samplePatterns False) ''include: nop''
     = Some \<lparr>whole = ''include:'', grp1 = [], grp2 = ''include''\<rparr>
   \<and> labelPart (samplePatterns False) sampleConfig 0 ''include: nop'' initial
       = (initial, ''include: nop'')
   \<and> labelsExcludes sampleConfig = []
   \<and> heap (scanLines (samplePatterns False) sampleConfig 0 [''include: nop'', ''Include: nop''] initial)
       = [\<lparr>name = ''Include'', detail = [], kind = SymbolKind_Function, rangeLine = 1, children = []\<rparr>]
   \<and> name (hd (heap (scanLines (samplePatterns False) sampleConfig 0
                        [''include: nop'', ''Include: nop''] initial))) \<noteq> ''include''"
proof -
  have m: "regexLabel (samplePatterns False) ''include: nop''
             = Some \<lparr>whole = ''include:'', grp1 = [], grp2 = ''include''\<rparr>"
    by code_simp
  have h: "heap (scanLines (samplePatterns False) sampleConfig 0 [''include: nop'', ''Include: nop''] initial)
       = [\<lparr>name = ''Include'', detail = [], kind = SymbolKind_Function, rangeLine = 1, children = []\<rparr>]"
    by code_simp
  show ?thesis
    using include_is_always_excluded [of sampleConfig "samplePatterns False" "''include: nop''"
            0 initial "[''include: nop'', ''Include: nop'']"] m h
    by (simp add: sampleConfig_def labelKind_def)
qed

text \<open>
  C8. A label whose text is in the configured exclusion list is discarded: the line leaves
  the state and the line contents as they are, after the scan of any document no symbol
  with the kind of a label has such a name, and no symbol that the workspace query returns
  for a folder, for any query, has a name in the exclusion list of that folder's
  configuration.
\<close>

theorem excluded_labels_never_appear:
  "(\<forall>m. regexLabel rx l = Some m \<and> grp1 m @ grp2 m \<in> set (labelsExcludes cfg)
          \<longrightarrow> labelPart rx cfg ln l s = (s, l))
   \<and> (\<forall>n \<in> set (heap (scanLines rx cfg 0 lines initial)).
          labelKind (kind n) \<longrightarrow> name n \<notin> set (labelsExcludes cfg))
   \<and> (\<forall>x \<in> set (getWsSymbols env cfg query). symName x \<notin> set (labelsExcludes cfg))
   \<and> (\<forall>syms. provideWorkspaceSymbols env (Some folders) query c = Some syms
          \<longrightarrow> (\<forall>x \<in> set syms. \<exists>ws \<in> set folders. \<exists>cfg'. configs env ws = Some cfg'
                   \<and> x \<in> set (getWsSymbols env cfg' query)
                   \<and> symName x \<notin> set (labelsExcludes cfg')))"
proof (intro conjI allI impI ballI)
  fix m assume "regexLabel rx l = Some m \<and> grp1 m @ grp2 m \<in> set (labelsExcludes cfg)"
  then show "labelPart rx cfg ln l s = (s, l)"
    by (intro excluded_label_discarded [of rx l m]) (simp_all add: excludes_def)
next
  fix n assume "n \<in> set (heap (scanLines rx cfg 0 lines initial))" "labelKind (kind n)"
  then have "name n \<notin> set (excludes cfg)" by (rule scan_label_names)
  then show "name n \<notin> set (labelsExcludes cfg)" by (simp add: excludes_def)
next
  fix x assume "x \<in> set (getWsSymbols env cfg query)"
  then show "symName x \<notin> set (labelsExcludes cfg)" by (rule getWsSymbols_names)
next
  fix syms x
  assume r: "provideWorkspaceSymbols env (Some folders) query c = Some syms" and x: "x \<in> set syms"
  from r have "syms = concat (map (folderSymbols env query) folders)"
    by (simp add: provideWorkspaceSymbols_def wsLoop_eq split: if_splits)
  with x obtain ws where ws: "ws \<in> set folders" "x \<in> set (folderSymbols env query ws)" by auto
  from ws(2) obtain cfg' where c: "configs env ws = Some cfg'" "x \<in> set (getWsSymbols env cfg' query)"
    by (cases "configs env ws") (auto simp: folderSymbols_def split: if_splits)
  from c(2) have "symName x \<notin> set (labelsExcludes cfg')" by (rule getWsSymbols_names)
  with ws(1) c show "\<exists>ws \<in> set folders. \<exists>cfg'. configs env ws = Some cfg'
                   \<and> x \<in> set (getWsSymbols env cfg' query)
                   \<and> symName x \<notin> set (labelsExcludes cfg')" by blast
qed

theorem excluded_labels_never_appear_witness:
  "regexLabel (samplePatterns False) ''foo: nop'' = Some \<lparr>whole = ''foo:'', grp1 = [], grp2 = ''foo''\<rparr>
   \<and> labelPart (samplePatterns False) (sampleConfig\<lparr>labelsExcludes := [''foo'']\<rparr>) 0 ''foo: nop'' initial
       = (initial, ''foo: nop'')
   \<and> map name (heap (scanLines (samplePatterns False) (sampleConfig\<lparr>labelsExcludes := [''foo'']\<rparr>) 0
                       [''foo: nop'', ''bar: nop''] initial)) = [''bar'']
   \<and> map symName (getWsSymbols sampleEnv (sampleConfig\<lparr>labelsExcludes := [''foo'']\<rparr>) ''o'') = [''bar'']"
proof -
  have m: "regexLabel (samplePatterns False) ''foo: nop''
             = Some \<lparr>whole = ''foo:'', grp1 = [], grp2 = ''foo''\<rparr>"
    by code_simp
  have h: "map name (heap (scanLines (samplePatterns False) (sampleConfig\<lparr>labelsExcludes := [''foo'']\<rparr>) 0
                       [''foo: nop'', ''bar: nop''] initial)) = [''bar'']"
    by code_simp
  have g: "map symName (getWsSymbols sampleEnv (sampleConfig\<lparr>labelsExcludes := [''foo'']\<rparr>) ''o'') = [''bar'']"
    by (simp add: getWsSymbols_def sampleEnv_def sampleConfig_def)
  show ?thesis
    using excluded_labels_never_appear [of "samplePatterns False" "''foo: nop''"
            "sampleConfig\<lparr>labelsExcludes := [''foo'']\<rparr>" 0 initial "[''foo: nop'', ''bar: nop'']"
            sampleEnv "''o''" "[''/a'']" neverCancelled] m h g
    by simp
qed

section \<open>The macro check\<close>

lemma processLine_with_macro_pattern:
  "regexMacro rx = Some p \<Longrightarrow>
     processLine rx cfg ln l s
       = macroPart p ln (afterLabel rx cfg l)
           (ca65Part rx ln (afterLabel rx cfg l) (fst (labelPart rx cfg ln l s)))"
  by (simp add: processLine_split restOfLine_def)

lemma processLine_macro_no_match:
  "regexMacro rx = Some p \<Longrightarrow> p (afterLabel rx cfg l) = None \<Longrightarrow>
     processLine rx cfg ln l s = ca65Part rx ln (afterLabel rx cfg l) (fst (labelPart rx cfg ln l s))"
  by (simp add: processLine_with_macro_pattern macroPart_def)

lemma noScopeSymbols_nth:
  "noScopeSymbols s =
     (labelKind (defaultSymbolKind s)
      \<and> (\<forall>j < length (heap s). kind (heap s ! j) \<noteq> SymbolKind_Module
                                 \<and> kind (heap s ! j) \<noteq> SymbolKind_Struct))"
  by (simp add: noScopeSymbols_def all_set_conv_all_nth)

lemma noScopeSymbols_pushChild [simp]: "noScopeSymbols (pushChild p c s) = noScopeSymbols s"
  unfolding noScopeSymbols_nth pushChild_def by (auto simp: nth_update_at)

lemma noScopeSymbols_pushRoot [simp]: "noScopeSymbols (pushRoot c s) = noScopeSymbols s"
  unfolding noScopeSymbols_nth pushRoot_def by simp

lemma noScopeSymbols_addToLastModule [simp]:
  "noScopeSymbols (addToLastModule c s) = noScopeSymbols s"
  by (simp add: addToLastModule_def)

lemma noScopeSymbols_popModule [simp]: "noScopeSymbols (popModule s) = noScopeSymbols s"
  unfolding noScopeSymbols_nth popModule_def by simp

lemma noScopeSymbols_vars [simp]:
  "noScopeSymbols (s\<lparr>lastModules := ms\<rparr>) = noScopeSymbols s"
  "noScopeSymbols (s\<lparr>lastAbsSymbolChildren := a\<rparr>) = noScopeSymbols s"
  "noScopeSymbols (s\<lparr>lastSymbol := x\<rparr>) = noScopeSymbols s"
  "noScopeSymbols (s\<lparr>lastSymbols := xs\<rparr>) = noScopeSymbols s"
  unfolding noScopeSymbols_nth by simp_all

lemma noScopeSymbols_newSymbol:
  "noScopeSymbols s \<Longrightarrow> k \<noteq> SymbolKind_Module \<Longrightarrow> k \<noteq> SymbolKind_Struct
     \<Longrightarrow> noScopeSymbols (snd (newSymbol nm d k ln s))"
  unfolding noScopeSymbols_nth newSymbol_def by (auto simp: nth_append less_Suc_eq)

lemma noScopeSymbols_default:
  "noScopeSymbols s \<Longrightarrow> defaultSymbolKind s \<noteq> SymbolKind_Module
     \<and> defaultSymbolKind s \<noteq> SymbolKind_Struct"
  by (auto simp: noScopeSymbols_def labelKind_def)

lemma labelPart_noScopeSymbols:
  "noScopeSymbols s \<Longrightarrow> noScopeSymbols (fst (labelPart rx cfg ln l s))"
  unfolding labelPart_def Let_def split_beta
  by (auto split: option.splits intro!: noScopeSymbols_newSymbol dest: noScopeSymbols_default)

lemma ca65Part_noScopeSymbols: "noScopeSymbols s \<Longrightarrow> noScopeSymbols (ca65Part rx ln lc s)"
  unfolding ca65Part_def Let_def split_beta
  by (auto split: option.splits intro!: noScopeSymbols_newSymbol)

lemma macroPart_noScopeSymbols: "noScopeSymbols s \<Longrightarrow> noScopeSymbols (macroPart p ln lc s)"
  unfolding macroPart_def Let_def split_beta
  by (auto split: option.splits intro!: noScopeSymbols_newSymbol)

lemma scanLines_noScopeSymbols:
  "regexMacro rx = Some p \<Longrightarrow> noScopeSymbols s \<Longrightarrow> noScopeSymbols (scanLines rx cfg ln ls s)"
proof (induction ls arbitrary: ln s)
  case Nil
  then show ?case by simp
next
  case (Cons l ls)
  have "noScopeSymbols (processLine rx cfg ln l s)"
    unfolding processLine_with_macro_pattern [OF Cons.prems(1)]
    by (intro macroPart_noScopeSymbols ca65Part_noScopeSymbols labelPart_noScopeSymbols Cons.prems)
  with Cons.IH Cons.prems(1) show ?case by simp
qed

lemma macro_pattern_no_module_symbols:
  assumes "regexMacro rx = Some p" "n \<in> set (heap (scanLines rx cfg 0 lines initial))"
  shows "kind n \<noteq> SymbolKind_Module \<and> kind n \<noteq> SymbolKind_Struct"
proof -
  have "noScopeSymbols initial" by (simp add: noScopeSymbols_def initial_def labelKind_def)
  from scanLines_noScopeSymbols [OF assms(1) this] assms(2) show ?thesis
    by (simp add: noScopeSymbols_def)
qed

text \<open>
  C5, evaluated where the code departs from it. The macro pattern of the request does not
  match the rest of the line \<^verbatim>\<open>VAL: EQU 5\<close>, and still the classification does not run: the
  label stays a Function without detail. With no macro pattern it becomes the Constant
  with detail \<^verbatim>\<open>EQU 5\<close>. (\<open>processLine_macro_no_match\<close> is the general fact.)
\<close>

theorem macro_check_skips_classification_of_other_lines:
  "regexMacro (samplePatterns True) = Some (compiled sampleMacro)
   \<and> compiled sampleMacro (afterLabel (samplePatterns True) sampleConfig ''VAL: EQU 5'') = None
   \<and> sampleOutline True [''VAL: EQU 5'']
       = Some [DocumentSymbol ''VAL'' [] SymbolKind_Function 0 []]
   \<and> sampleOutline False [''VAL: EQU 5'']
       = Some [DocumentSymbol ''VAL'' ''EQU 5'' SymbolKind_Constant 0 []]"
proof (intro conjI)
  show "regexMacro (samplePatterns True) = Some (compiled sampleMacro)"
    by (simp add: samplePatterns_def)
  show "compiled sampleMacro (afterLabel (samplePatterns True) sampleConfig ''VAL: EQU 5'') = None"
    by code_simp
  show "sampleOutline True [''VAL: EQU 5'']
       = Some [DocumentSymbol ''VAL'' [] SymbolKind_Function 0 []]"
    by code_simp
  show "sampleOutline False [''VAL: EQU 5'']
       = Some [DocumentSymbol ''VAL'' ''EQU 5'' SymbolKind_Constant 0 []]"
    by code_simp
qed

text \<open>
  C1, evaluated where the code departs from it. With a macro pattern in the request the
  MODULE and ENDMODULE lines are never looked at, and the outline of the four lines is
  \<^verbatim>\<open>bar\<close> with its child \<^verbatim>\<open>.loop\<close> at the root; with no macro pattern it is the tree of the
  claim. (\<open>macro_pattern_no_module_symbols\<close> is the general fact.)
\<close>

theorem module_scenario_loses_module_with_macro_pattern:
  "sampleOutline True [''MODULE foo'', ''bar: nop'', ''.loop: nop'', ''ENDMODULE'']
     = Some [DocumentSymbol ''bar'' [] SymbolKind_Function 1
               [DocumentSymbol ''.loop'' [] SymbolKind_Function 2 []]]
   \<and> sampleOutline False [''MODULE foo'', ''bar: nop'', ''.loop: nop'', ''ENDMODULE'']
     = Some [DocumentSymbol ''foo'' [] SymbolKind_Module 0
               [DocumentSymbol ''bar'' [] SymbolKind_Function 1
                  [DocumentSymbol ''.loop'' [] SymbolKind_Function 2 []]]]"
  by code_simp

section \<open>Properties of the matcher\<close>



lemma run_Cat_Nil [simp]: "run (Cat []) st = [st]"
  by (simp add: Cat_def)

lemma run_Cat_Cons [simp]: "run (Cat (r # rs)) st = concat (map (run (Cat rs)) (run r st))"
  by (simp add: Cat_def)

lemma in_star:
  "((p, r) \<in> set (star a pre rest))
     = (\<exists>w. (\<forall>x \<in> set w. atom_ok a x) \<and> rest = w @ r \<and> p = rev w @ pre)"
proof (induction rest arbitrary: pre)
  case Nil
  show ?case by auto
next
  case (Cons c cs)
  show ?case
  proof
    assume "(p, r) \<in> set (star a pre (c # cs))"
    then consider "atom_ok a c" "(p, r) \<in> set (star a (c # pre) cs)" | "p = pre" "r = c # cs"
      by (auto split: if_splits)
    then show "\<exists>w. (\<forall>x \<in> set w. atom_ok a x) \<and> c # cs = w @ r \<and> p = rev w @ pre"
    proof cases
      case 1
      then obtain w where "\<forall>x \<in> set w. atom_ok a x" "cs = w @ r" "p = rev w @ c # pre"
        using Cons.IH by blast
      with 1(1) have "(\<forall>x \<in> set (c # w). atom_ok a x) \<and> c # cs = (c # w) @ r \<and> p = rev (c # w) @ pre"
        by simp
      then show ?thesis by blast
    next
      case 2
      then have "(\<forall>x \<in> set []. atom_ok a x) \<and> c # cs = [] @ r \<and> p = rev [] @ pre" by simp
      then show ?thesis by blast
    qed
  next
    assume "\<exists>w. (\<forall>x \<in> set w. atom_ok a x) \<and> c # cs = w @ r \<and> p = rev w @ pre"
    then obtain w where w: "\<forall>x \<in> set w. atom_ok a x" "c # cs = w @ r" "p = rev w @ pre" by blast
    show "(p, r) \<in> set (star a pre (c # cs))"
    proof (cases w)
      case Nil
      with w show ?thesis by auto
    next
      case (Cons x w')
      with w have "atom_ok a c" "\<forall>x \<in> set w'. atom_ok a x" "cs = w' @ r" "p = rev w' @ c # pre"
        by simp_all
      then have "(p, r) \<in> set (star a (c # pre) cs)" using Cons.IH by blast
      with \<open>atom_ok a c\<close> show ?thesis by simp
    qed
  qed
qed

lemma set_starLazy: "set (starLazy a pre rest) = set (star a pre rest)"
  by (induction rest arbitrary: pre) auto

lemma in_run_Star:
  "((p, r, c) \<in> set (run (Star a) (pre, rest, caps)))
     = (c = caps \<and> (\<exists>w. (\<forall>x \<in> set w. atom_ok a x) \<and> rest = w @ r \<and> p = rev w @ pre))"
  using in_star [of p r a pre rest] by auto

lemma in_run_StarLazy:
  "((p, r, c) \<in> set (run (StarLazy a) (pre, rest, caps)))
     = (c = caps \<and> (\<exists>w. (\<forall>x \<in> set w. atom_ok a x) \<and> rest = w @ r \<and> p = rev w @ pre))"
  using in_star [of p r a pre rest] by (auto simp: set_starLazy)

lemma in_run_Plus:
  "((p, r, c) \<in> set (run (Plus a) (pre, rest, caps)))
     = (c = caps \<and> (\<exists>w. w \<noteq> [] \<and> (\<forall>x \<in> set w. atom_ok a x) \<and> rest = w @ r \<and> p = rev w @ pre))"
proof (cases rest)
  case Nil
  then show ?thesis by auto
next
  case (Cons x xs)
  show ?thesis
  proof
    assume "(p, r, c) \<in> set (run (Plus a) (pre, rest, caps))"
    then have a: "atom_ok a x" "c = caps" "(p, r) \<in> set (star a (x # pre) xs)"
      using Cons by (auto split: if_splits)
    then obtain w where "\<forall>y \<in> set w. atom_ok a y" "xs = w @ r" "p = rev w @ x # pre"
      using in_star [of p r a "x # pre" xs] by blast
    with a Cons have "x # w \<noteq> [] \<and> (\<forall>y \<in> set (x # w). atom_ok a y) \<and> rest = (x # w) @ r
        \<and> p = rev (x # w) @ pre" by simp
    with a(2) show "c = caps \<and> (\<exists>w. w \<noteq> [] \<and> (\<forall>x \<in> set w. atom_ok a x) \<and> rest = w @ r \<and> p = rev w @ pre)"
      by blast
  next
    assume "c = caps \<and> (\<exists>w. w \<noteq> [] \<and> (\<forall>x \<in> set w. atom_ok a x) \<and> rest = w @ r \<and> p = rev w @ pre)"
    then obtain w where w: "c = caps" "w \<noteq> []" "\<forall>x \<in> set w. atom_ok a x" "rest = w @ r" "p = rev w @ pre"
      by blast
    then obtain w' where w': "w = x # w'" using Cons by (cases w) auto
    with w Cons have "atom_ok a x" "\<forall>y \<in> set w'. atom_ok a y" "xs = w' @ r" "p = rev w' @ x # pre"
      by simp_all
    then have "(p, r) \<in> set (star a (x # pre) xs)" using in_star [of p r a "x # pre" xs] by blast
    with \<open>atom_ok a x\<close> w(1) Cons show "(p, r, c) \<in> set (run (Plus a) (pre, rest, caps))" by auto
  qed
qed

lemma in_run_Atom:
  "((p, r, c) \<in> set (run (Atom a) (pre, rest, caps)))
     = (c = caps \<and> (\<exists>x. atom_ok a x \<and> rest = x # r \<and> p = x # pre))"
  by (cases rest) auto

lemma in_run_Seq:
  "(st'' \<in> set (run (Seq r1 r2) st)) = (\<exists>st' \<in> set (run r1 st). st'' \<in> set (run r2 st'))"
  by auto

lemma in_run_Cat_Cons:
  "(st'' \<in> set (run (Cat (r # rs)) st)) = (\<exists>st' \<in> set (run r st). st'' \<in> set (run (Cat rs) st'))"
  by auto

lemma consumed_append [simp]: "consumed pre (rev w @ pre) = w"
  by (simp add: consumed_def)

lemma in_run_Group:
  "((p, r, c) \<in> set (run (Group k g) (pre, rest, caps)))
     = (\<exists>c'. (p, r, c') \<in> set (run g (pre, rest, caps)) \<and> c = c'[k := Some (consumed pre p)])"
  by (simp add: image_iff Bex_def split_paired_Ex)

lemma in_run_Str:
  "((p, r, c) \<in> set (run (Str s) (pre, rest, caps)))
     = (c = caps \<and> (\<exists>w. list_all2 sameIgnoringCase s w \<and> rest = w @ r \<and> p = rev w @ pre))"
proof (induction s arbitrary: pre rest)
  case Nil
  show ?case by (auto simp: Str_def)
next
  case (Cons x s)
  have IH: "\<And>pre rest. ((p, r, c) \<in> set (run (Cat (map (\<lambda>c. Atom (One (Lit c))) s)) (pre, rest, caps)))
     = (c = caps \<and> (\<exists>w. list_all2 sameIgnoringCase s w \<and> rest = w @ r \<and> p = rev w @ pre))"
    using Cons.IH by (simp add: Str_def)
  have lit: "\<And>y. atom_ok (One (Lit x)) y = sameIgnoringCase x y"
    by (auto simp: inSets_def sameIgnoringCase_def)
  show ?case
  proof
    assume "(p, r, c) \<in> set (run (Str (x # s)) (pre, rest, caps))"
    then obtain st' where st': "st' \<in> set (run (Atom (One (Lit x))) (pre, rest, caps))"
        "(p, r, c) \<in> set (run (Cat (map (\<lambda>c. Atom (One (Lit c))) s)) st')"
      by (auto simp: Str_def)
    obtain p1 r1 c1 where s1: "st' = (p1, r1, c1)" by (cases st') auto
    from st'(1) s1 obtain y where y: "c1 = caps" "atom_ok (One (Lit x)) y" "rest = y # r1" "p1 = y # pre"
      using in_run_Atom [of p1 r1 c1 "One (Lit x)" pre rest caps] by blast
    from st'(2) s1 y(1) obtain w where w: "c = caps" "list_all2 sameIgnoringCase s w" "r1 = w @ r" "p = rev w @ p1"
      using IH [of p1 r1] by blast
    from y w lit have "list_all2 sameIgnoringCase (x # s) (y # w) \<and> rest = (y # w) @ r \<and> p = rev (y # w) @ pre"
      by simp
    with w(1) show "c = caps \<and> (\<exists>w. list_all2 sameIgnoringCase (x # s) w \<and> rest = w @ r \<and> p = rev w @ pre)"
      by blast
  next
    assume "c = caps \<and> (\<exists>w. list_all2 sameIgnoringCase (x # s) w \<and> rest = w @ r \<and> p = rev w @ pre)"
    then obtain w where w: "c = caps" "list_all2 sameIgnoringCase (x # s) w" "rest = w @ r" "p = rev w @ pre"
      by blast
    then obtain y w' where yw: "w = y # w'" "sameIgnoringCase x y" "list_all2 sameIgnoringCase s w'"
      by (auto simp: list_all2_Cons1)
    have 1: "(y # pre, w' @ r, caps) \<in> set (run (Atom (One (Lit x))) (pre, rest, caps))"
      using yw w lit by (simp add: in_run_Atom)
    have 2: "(p, r, c) \<in> set (run (Cat (map (\<lambda>c. Atom (One (Lit c))) s)) (y # pre, w' @ r, caps))"
      using IH [of "y # pre" "w' @ r"] yw w by auto
    show "(p, r, c) \<in> set (run (Str (x # s)) (pre, rest, caps))"
      unfolding Str_def using 1 2 by (simp del: run.simps(2)) blast
  qed
qed

lemma code_char_of: "n < 256 \<Longrightarrow> code (char_of n) = n"
  by (simp add: code_def)

lemma code_less: "code c < 256"
  unfolding code_def by (metis of_char_mod_256 mod_less_divisor zero_less_numeral)

lemma code_toUpperChar:
  "code (toUpperChar c)
     = (if (97 \<le> code c \<and> code c \<le> 122) \<or> (224 \<le> code c \<and> code c \<le> 254 \<and> code c \<noteq> 247)
        then code c - 32 else code c)"
  using code_less [of c] by (simp add: toUpperChar_def code_char_of)

lemma code_toLowerChar:
  "code (toLowerChar c)
     = (if (65 \<le> code c \<and> code c \<le> 90) \<or> (192 \<le> code c \<and> code c \<le> 222 \<and> code c \<noteq> 215)
        then code c + 32 else code c)"
  using code_less [of c] by (simp add: toLowerChar_def code_char_of)

lemma space_atom: "atom_ok (One SpaceCh) c = isSpaceChar c"
  by (auto simp: inSets_def variants_def isSpaceChar_def code_toUpperChar code_toLowerChar
           split: if_splits)

lemma any_atom: "atom_ok (One AnyChar) c = (\<not> isLineTerminator c)"
  by (auto simp: inSets_def variants_def isLineTerminator_def code_toUpperChar code_toLowerChar
           split: if_splits)

lemma word_atom: "atom_ok (One WordCh) c = isWordChar c"
  by (auto simp: inSets_def variants_def isWordChar_def code_toUpperChar code_toLowerChar
           split: if_splits)

lemma wordOrDot_atom: "isWordChar c \<Longrightarrow> atom_ok wordOrDot c"
  by (auto simp: wordOrDot_def inSets_def variants_def)

lemma sameIgnoringCase_refl: "sameIgnoringCase c c"
  by (simp add: sameIgnoringCase_def variants_def)

lemma subseq_sameIgnoringCase: "subseq Q I \<Longrightarrow> list_emb sameIgnoringCase Q I"
  by (rule list_emb_mono [rule_format]) (auto simp: sameIgnoringCase_refl)

lemma regexPrepareFuzzy_Nil [simp]: "regexPrepareFuzzy [] = Cat []"
  by (simp add: regexPrepareFuzzy_def)

lemma regexPrepareFuzzy_Cons:
  "run (regexPrepareFuzzy (q # Q)) st
     = concat (map (\<lambda>s1. concat (map (run (regexPrepareFuzzy Q)) (run (Atom (One (Lit q))) s1)))
                   (run (Star (One WordCh)) st))"
proof -
  have ext: "\<And>r rs. run (Cat (r # rs)) = (\<lambda>st. concat (map (run (Cat rs)) (run r st)))"
    by (rule ext) simp
  show ?thesis
    by (simp add: regexPrepareFuzzy_def ext del: run.simps(2,3) run_Cat_Cons)
qed

lemma in_run_fuzzy_Cons:
  "(st'' \<in> set (run (regexPrepareFuzzy (q # Q)) st))
     = (\<exists>s1 \<in> set (run (Star (One WordCh)) st). \<exists>s2 \<in> set (run (Atom (One (Lit q))) s1).
          st'' \<in> set (run (regexPrepareFuzzy Q) s2))"
  unfolding regexPrepareFuzzy_Cons by auto

lemma star_skip:
  assumes "atom_ok a y"
  shows "set (run (Star a) (y # pre, cs, caps)) \<subseteq> set (run (Star a) (pre, y # cs, caps))"
  using assms by auto

lemma fuzzy_skip:
  assumes "isWordChar y" "Q \<noteq> []"
  shows "set (run (regexPrepareFuzzy Q) (y # pre, cs, caps))
           \<subseteq> set (run (regexPrepareFuzzy Q) (pre, y # cs, caps))"
proof -
  obtain q Q' where Q: "Q = q # Q'" using assms(2) by (cases Q) auto
  have "atom_ok (One WordCh) y" using assms(1) word_atom by blast
  from star_skip [OF this] show ?thesis
    unfolding Q using in_run_fuzzy_Cons by blast
qed

lemma fuzzy_complete:
  assumes "list_emb sameIgnoringCase Q I" "\<forall>x \<in> set I. isWordChar x"
  shows "\<exists>w1 w2. I = w1 @ w2
           \<and> (rev w1 @ pre, w2 @ rest, caps) \<in> set (run (regexPrepareFuzzy Q) (pre, I @ rest, caps))"
  using assms
proof (induction arbitrary: pre rule: list_emb.induct)
  case (list_emb_Nil ys)
  have "ys = [] @ ys \<and> (rev [] @ pre, ys @ rest, caps) \<in> set (run (regexPrepareFuzzy []) (pre, ys @ rest, caps))"
    by simp
  then show ?case by blast
next
  case (list_emb_Cons xs ys y)
  show ?case
  proof (cases xs)
    case Nil
    have "y # ys = [] @ (y # ys)
        \<and> (rev [] @ pre, (y # ys) @ rest, caps) \<in> set (run (regexPrepareFuzzy []) (pre, (y # ys) @ rest, caps))"
      by simp
    then show ?thesis unfolding Nil by blast
  next
    case (Cons q Q')
    from list_emb_Cons.prems have wy: "isWordChar y" and wys: "\<forall>x \<in> set ys. isWordChar x" by simp_all
    from list_emb_Cons.IH [OF wys, of "y # pre"] obtain w1 w2 where
      w: "ys = w1 @ w2" "(rev w1 @ y # pre, w2 @ rest, caps) \<in> set (run (regexPrepareFuzzy xs) (y # pre, ys @ rest, caps))"
      by blast
    have "xs \<noteq> []" using Cons by simp
    from fuzzy_skip [OF wy this] w(2)
    have "(rev w1 @ y # pre, w2 @ rest, caps) \<in> set (run (regexPrepareFuzzy xs) (pre, y # ys @ rest, caps))"
      by blast
    then have "y # ys = (y # w1) @ w2
        \<and> (rev (y # w1) @ pre, w2 @ rest, caps) \<in> set (run (regexPrepareFuzzy xs) (pre, (y # ys) @ rest, caps))"
      using w(1) by simp
    then show ?thesis by blast
  qed
next
  case (list_emb_Cons2 x y xs ys)
  from list_emb_Cons2.prems have wys: "\<forall>x \<in> set ys. isWordChar x" by simp
  from list_emb_Cons2.IH [OF wys, of "y # pre"] obtain w1 w2 where
    w: "ys = w1 @ w2" "(rev w1 @ y # pre, w2 @ rest, caps) \<in> set (run (regexPrepareFuzzy xs) (y # pre, ys @ rest, caps))"
    by blast
  have 1: "(pre, y # ys @ rest, caps) \<in> set (run (Star (One WordCh)) (pre, y # ys @ rest, caps))"
    unfolding in_run_Star by simp
  have "atom_ok (One (Lit x)) y" using list_emb_Cons2.hyps(1)
    by (auto simp: inSets_def sameIgnoringCase_def)
  then have 2: "(y # pre, ys @ rest, caps) \<in> set (run (Atom (One (Lit x))) (pre, y # ys @ rest, caps))"
    unfolding in_run_Atom by simp
  have "(rev w1 @ y # pre, w2 @ rest, caps) \<in> set (run (regexPrepareFuzzy (x # xs)) (pre, y # ys @ rest, caps))"
    unfolding in_run_fuzzy_Cons using 1 2 w(2) by blast
  then have "y # ys = (y # w1) @ w2
        \<and> (rev (y # w1) @ pre, w2 @ rest, caps) \<in> set (run (regexPrepareFuzzy (x # xs)) (pre, (y # ys) @ rest, caps))"
    using w(1) by simp
  then show ?case by blast
qed

lemma exec_from_found:
  "run r (pre, rest, replicate (Suc n) None) \<noteq> [] \<Longrightarrow> exec_from r n pre rest \<noteq> None"
  by (cases rest; cases "run r (pre, rest, replicate (Suc n) None)") auto

lemma exec_found:
  "st \<in> set (run r ([], line0, replicate (Suc (ngroups r)) None)) \<Longrightarrow> exec r line0 \<noteq> None"
  unfolding exec_def by (rule exec_from_found) auto



lemma ngroups_Str [simp]: "ngroups (Str s) = 0"
  by (induction s) (simp_all add: Str_def Cat_def)

lemma ngroups_fuzzy [simp]: "ngroups (regexPrepareFuzzy Q) = 0"
  by (induction Q) (simp_all add: regexPrepareFuzzy_def Cat_def)

lemma ngroups_Cat_Nil [simp]: "ngroups (Cat []) = 0"
  by (simp add: Cat_def)

lemma ngroups_Cat_Cons [simp]: "ngroups (Cat (r # rs)) = max (ngroups r) (ngroups (Cat rs))"
  by (simp add: Cat_def)

lemma in_run_Cat1:
  "(st' \<in> set (run (Cat [a]) st)) = (st' \<in> set (run a st))"
  by (simp del: run.simps)

lemma in_run_Cat2:
  "(st' \<in> set (run (Cat [a, b]) st)) = (\<exists>s1 \<in> set (run a st). st' \<in> set (run b s1))"
  by (simp del: run.simps)

lemma in_run_Cat3:
  "(st' \<in> set (run (Cat [a, b, c]) st))
     = (\<exists>s1 \<in> set (run a st). \<exists>s2 \<in> set (run b s1). st' \<in> set (run c s2))"
  by (simp del: run.simps)

lemma in_run_Cat4:
  "(st' \<in> set (run (Cat [a, b, c, d]) st))
     = (\<exists>s1 \<in> set (run a st). \<exists>s2 \<in> set (run b s1). \<exists>s3 \<in> set (run c s2).
          st' \<in> set (run d s3))"
  by (simp del: run.simps)

lemma in_run_keywordHead:
  "((p, r, c) \<in> set (run (keywordHead kwd) (pre, rest, caps)))
     = (\<exists>ws1 kw ws2. ws1 \<noteq> [] \<and> (\<forall>x \<in> set ws1. isSpaceChar x) \<and> list_all2 sameIgnoringCase kwd kw
           \<and> ws2 \<noteq> [] \<and> (\<forall>x \<in> set ws2. isSpaceChar x)
           \<and> rest = ws1 @ kw @ ws2 @ r \<and> p = rev (ws1 @ kw @ ws2) @ pre
           \<and> c = caps[2 := Some kw])"
proof
  assume "(p, r, c) \<in> set (run (keywordHead kwd) (pre, rest, caps))"
  then obtain s1 s2 where s: "s1 \<in> set (run (Plus (One SpaceCh)) (pre, rest, caps))"
      "s2 \<in> set (run (Group 2 (Str kwd)) s1)" "(p, r, c) \<in> set (run (Plus (One SpaceCh)) s2)"
    unfolding keywordHead_def in_run_Cat3 by blast
  obtain p1 r1 c1 where s1: "s1 = (p1, r1, c1)" by (cases s1) auto
  obtain p2 r2 c2 where s2: "s2 = (p2, r2, c2)" by (cases s2) auto
  from s(1) have "(p1, r1, c1) \<in> set (run (Plus (One SpaceCh)) (pre, rest, caps))" unfolding s1 .
  then obtain ws1 where w1: "c1 = caps" "ws1 \<noteq> []" "\<forall>x \<in> set ws1. isSpaceChar x"
      "rest = ws1 @ r1" "p1 = rev ws1 @ pre"
    unfolding in_run_Plus space_atom by blast
  from s(2) have "(p2, r2, c2) \<in> set (run (Group 2 (Str kwd)) (p1, r1, c1))" unfolding s1 s2 .
  then obtain c' where g: "(p2, r2, c') \<in> set (run (Str kwd) (p1, r1, c1))"
      "c2 = c'[2 := Some (consumed p1 p2)]"
    unfolding in_run_Group by blast
  from g(1) obtain kw where kw: "c' = c1" "list_all2 sameIgnoringCase kwd kw" "r1 = kw @ r2" "p2 = rev kw @ p1"
    unfolding in_run_Str by blast
  from s(3) have "(p, r, c) \<in> set (run (Plus (One SpaceCh)) (p2, r2, c2))" unfolding s2 .
  then obtain ws2 where w2: "c = c2" "ws2 \<noteq> []" "\<forall>x \<in> set ws2. isSpaceChar x"
      "r2 = ws2 @ r" "p = rev ws2 @ p2"
    unfolding in_run_Plus space_atom by blast
  have "rest = ws1 @ kw @ ws2 @ r \<and> p = rev (ws1 @ kw @ ws2) @ pre \<and> c = caps[2 := Some kw]"
    using w1 g(2) kw w2 by simp
  with w1(2,3) kw(2) w2(2,3)
  show "\<exists>ws1 kw ws2. ws1 \<noteq> [] \<and> (\<forall>x \<in> set ws1. isSpaceChar x) \<and> list_all2 sameIgnoringCase kwd kw
           \<and> ws2 \<noteq> [] \<and> (\<forall>x \<in> set ws2. isSpaceChar x)
           \<and> rest = ws1 @ kw @ ws2 @ r \<and> p = rev (ws1 @ kw @ ws2) @ pre
           \<and> c = caps[2 := Some kw]" by blast
next
  assume "\<exists>ws1 kw ws2. ws1 \<noteq> [] \<and> (\<forall>x \<in> set ws1. isSpaceChar x) \<and> list_all2 sameIgnoringCase kwd kw
           \<and> ws2 \<noteq> [] \<and> (\<forall>x \<in> set ws2. isSpaceChar x)
           \<and> rest = ws1 @ kw @ ws2 @ r \<and> p = rev (ws1 @ kw @ ws2) @ pre
           \<and> c = caps[2 := Some kw]"
  then obtain ws1 kw ws2 where h: "ws1 \<noteq> []" "\<forall>x \<in> set ws1. isSpaceChar x"
      "list_all2 sameIgnoringCase kwd kw" "ws2 \<noteq> []" "\<forall>x \<in> set ws2. isSpaceChar x"
      "rest = ws1 @ kw @ ws2 @ r" "p = rev (ws1 @ kw @ ws2) @ pre" "c = caps[2 := Some kw]"
    by blast
  have 1: "(rev ws1 @ pre, kw @ ws2 @ r, caps) \<in> set (run (Plus (One SpaceCh)) (pre, rest, caps))"
    unfolding in_run_Plus space_atom using h(1,2,6) by blast
  have "(rev kw @ rev ws1 @ pre, ws2 @ r, caps) \<in> set (run (Str kwd) (rev ws1 @ pre, kw @ ws2 @ r, caps))"
    unfolding in_run_Str using h(3) by blast
  then have 2: "(rev kw @ rev ws1 @ pre, ws2 @ r, caps[2 := Some kw])
                  \<in> set (run (Group 2 (Str kwd)) (rev ws1 @ pre, kw @ ws2 @ r, caps))"
    unfolding in_run_Group by (intro exI [of _ caps]) simp
  have 3: "(p, r, c) \<in> set (run (Plus (One SpaceCh)) (rev kw @ rev ws1 @ pre, ws2 @ r, caps[2 := Some kw]))"
    unfolding in_run_Plus space_atom using h(4,5,7,8) by auto
  show "(p, r, c) \<in> set (run (keywordHead kwd) (pre, rest, caps))"
    unfolding keywordHead_def in_run_Cat3 using 1 2 3 by blast
qed

lemma consumed_Nil [simp]: "consumed [] p = rev p"
  by (simp add: consumed_def)



text \<open>The patterns for a keyword with a word after it.\<close>

lemma keyword_head_complete:
  assumes emb: "list_emb sameIgnoringCase Q I" and wI: "\<forall>x \<in> set I. isWordChar x"
    and H: "(rev before, I @ tail, c2) \<in> set (run H ([], before @ I @ tail, replicate 3 None))"
    and n: "ngroups H = 2"
  shows "exec (Cat [Bol, Group 1 H, regexPrepareFuzzy Q, Star a]) (before @ I @ tail) \<noteq> None"
proof -
  let ?R = "Cat [Bol, Group 1 H, regexPrepareFuzzy Q, Star a]"
  let ?st = "([], before @ I @ tail, replicate 3 None)"
  let ?c = "c2[1 := Some (consumed [] (rev before))]"
  have ng: "Suc (ngroups ?R) = 3" using n by simp
  have 1: "?st \<in> set (run Bol ?st)" by simp
  have 2: "(rev before, I @ tail, ?c) \<in> set (run (Group 1 H) ?st)"
    unfolding in_run_Group using H by blast
  from fuzzy_complete [OF emb wI, of "rev before" tail ?c] obtain w1 w2 where
    w: "I = w1 @ w2" "(rev w1 @ rev before, w2 @ tail, ?c)
          \<in> set (run (regexPrepareFuzzy Q) (rev before, I @ tail, ?c))" by blast
  have 4: "(rev w1 @ rev before, w2 @ tail, ?c) \<in> set (run (Star a) (rev w1 @ rev before, w2 @ tail, ?c))"
    unfolding in_run_Star by simp
  have "(rev w1 @ rev before, w2 @ tail, ?c) \<in> set (run ?R ?st)"
    unfolding in_run_Cat4 using 1 2 w(2) 4 by blast
  then have "(rev w1 @ rev before, w2 @ tail, ?c)
               \<in> set (run ?R ([], before @ I @ tail, replicate (Suc (ngroups ?R)) None))"
    unfolding ng .
  then show ?thesis by (rule exec_found)
qed

lemma ngroups_keywordHead [simp]: "ngroups (keywordHead kwd) = 2"
  by (simp add: keywordHead_def)

lemma primary_keyword_complete:
  assumes "list_emb sameIgnoringCase Q I" "\<forall>x \<in> set I. isWordChar x"
    and "ws1 \<noteq> []" "\<forall>x \<in> set ws1. isSpaceChar x" "list_all2 sameIgnoringCase kwd kw"
    and "ws2 \<noteq> []" "\<forall>x \<in> set ws2. isSpaceChar x"
  shows "exec (Cat [Bol, Group 1 (keywordHead kwd), regexPrepareFuzzy Q, Star a])
              (ws1 @ kw @ ws2 @ I @ tail) \<noteq> None"
proof -
  have "(rev (ws1 @ kw @ ws2), I @ tail, (replicate 3 None)[2 := Some kw])
          \<in> set (run (keywordHead kwd) ([], (ws1 @ kw @ ws2) @ I @ tail, replicate 3 None))"
    unfolding in_run_keywordHead using assms(3-7) by auto
  from keyword_head_complete [OF assms(1,2) this] show ?thesis by simp
qed

lemma listing_keyword_complete:
  assumes "list_emb sameIgnoringCase Q I" "\<forall>x \<in> set I. isWordChar x"
    and "\<forall>x \<in> set pfx. \<not> isLineTerminator x"
    and "ws1 \<noteq> []" "\<forall>x \<in> set ws1. isSpaceChar x" "list_all2 sameIgnoringCase kwd kw"
    and "ws2 \<noteq> []" "\<forall>x \<in> set ws2. isSpaceChar x"
  shows "exec (Cat [Bol, Group 1 (Seq (StarLazy (One AnyChar)) (keywordHead kwd)),
                    regexPrepareFuzzy Q, Star a])
              (pfx @ ws1 @ kw @ ws2 @ I @ tail) \<noteq> None"
proof -
  let ?l = "(pfx @ ws1 @ kw @ ws2) @ I @ tail"
  have 1: "(rev pfx, ws1 @ kw @ ws2 @ I @ tail, replicate 3 None)
             \<in> set (run (StarLazy (One AnyChar)) ([], ?l, replicate 3 None))"
    unfolding in_run_StarLazy any_atom using assms(3) by auto
  have 2: "(rev (pfx @ ws1 @ kw @ ws2), I @ tail, (replicate 3 None)[2 := Some kw])
          \<in> set (run (keywordHead kwd) (rev pfx, ws1 @ kw @ ws2 @ I @ tail, replicate 3 None))"
    unfolding in_run_keywordHead using assms(4-8) by auto
  have "(rev (pfx @ ws1 @ kw @ ws2), I @ tail, (replicate 3 None)[2 := Some kw])
          \<in> set (run (Seq (StarLazy (One AnyChar)) (keywordHead kwd)) ([], ?l, replicate 3 None))"
    unfolding in_run_Seq using 1 2 by blast
  from keyword_head_complete [OF assms(1,2) this] show ?thesis by simp
qed

lemma in_run_Opt_skip: "st \<in> set (run (Opt r) st)"
  by simp

lemma in_run_WordB:
  "atWordBoundary pre rest \<Longrightarrow> (pre, rest, caps) \<in> set (run WordB (pre, rest, caps))"
  by simp

lemma boundary_start: "isWordChar x \<Longrightarrow> atWordBoundary [] (x # xs)"
  by (simp add: atWordBoundary_def)

lemma boundary_end: "I \<noteq> [] \<Longrightarrow> isWordChar (last I) \<Longrightarrow> atWordBoundary (rev I) []"
  by (cases I rule: rev_cases) (simp_all add: atWordBoundary_def)

lemma module_asm_eq:
  "regexEveryModuleForWord F ASM_COLLECTION
     = Cat [Bol, Group 1 (keywordHead ''MODULE''), F, Star wordOrDot]"
  by (simp add: regexEveryModuleForWord_def keywordHead_def)

lemma module_list_eq:
  "regexEveryModuleForWord F ASM_LIST_FILE
     = Cat [Bol, Group 1 (Seq (StarLazy (One AnyChar)) (keywordHead ''MODULE'')), F, Star wordOrDot]"
  by (simp add: regexEveryModuleForWord_def keywordHead_def Cat_def)

lemma macro_asm_eq:
  "regexEveryMacroForWord F ASM_COLLECTION
     = Cat [Bol, Group 1 (keywordHead ''MACRO''), F,
            Star (In [WordCh, Lit (CHR ''.''), Lit (CHR ''_'')])]"
  by (simp add: regexEveryMacroForWord_def keywordHead_def)

lemma macro_list_eq:
  "regexEveryMacroForWord F ASM_LIST_FILE
     = Cat [Bol, Group 1 (Seq (StarLazy (One AnyChar)) (keywordHead ''MACRO'')), F,
            Star (In [WordCh, Lit (CHR ''.''), Lit (CHR ''_'')])]"
  by (simp add: regexEveryMacroForWord_def keywordHead_def Cat_def)

lemma in_run_Cat5:
  "(st' \<in> set (run (Cat [a, b, c, d, e]) st))
     = (\<exists>s1 \<in> set (run a st). \<exists>s2 \<in> set (run b s1). \<exists>s3 \<in> set (run c s2).
          \<exists>s4 \<in> set (run d s3). st' \<in> set (run e s4))"
  by (simp del: run.simps)

lemma in_run_Cat7:
  "(st' \<in> set (run (Cat [a, b, c, d, e, f, g]) st))
     = (\<exists>s1 \<in> set (run a st). \<exists>s2 \<in> set (run b s1). \<exists>s3 \<in> set (run c s2).
          \<exists>s4 \<in> set (run d s3). \<exists>s5 \<in> set (run e s4). \<exists>s6 \<in> set (run f s5).
            st' \<in> set (run g s6))"
  by (simp del: run.simps)

text \<open>The end of the label patterns with colon, on an identifier followed by a colon.\<close>

lemma colon_tail:
  assumes emb: "list_emb sameIgnoringCase Q I" and wI: "\<forall>x \<in> set I. isWordChar x" and ne: "I \<noteq> []"
  shows "(rev (I @ '':''), [], c)
           \<in> set (run (Cat [WordB, regexPrepareFuzzy Q, Star wordOrDot, Atom (One (Lit (CHR '':''))),
                             Alt (Atom (NotIn [Lit (CHR '':'')])) Eol])
                       ([], I @ '':'', c))"
proof -
  obtain x xs where I: "I = x # xs" using ne by (cases I) auto
  have 1: "([], I @ '':'', c) \<in> set (run WordB ([], I @ '':'', c))"
    using wI unfolding I by (intro in_run_WordB) (simp add: boundary_start)
  from fuzzy_complete [OF emb wI, of "[]" "'':''" c] obtain w1 w2 where
    w: "I = w1 @ w2" "(rev w1, w2 @ '':'', c) \<in> set (run (regexPrepareFuzzy Q) ([], I @ '':'', c))"
    by auto
  have "\<forall>x \<in> set w2. atom_ok wordOrDot x" using wI w(1) by (auto intro: wordOrDot_atom)
  then have 3: "(rev I, '':'', c) \<in> set (run (Star wordOrDot) (rev w1, w2 @ '':'', c))"
    unfolding in_run_Star using w(1) by auto
  have 4: "(rev (I @ '':''), [], c) \<in> set (run (Atom (One (Lit (CHR '':'')))) (rev I, '':'', c))"
    unfolding in_run_Atom by (simp add: inSets_def variants_def)
  have 5: "(rev (I @ '':''), [], c)
             \<in> set (run (Alt (Atom (NotIn [Lit (CHR '':'')])) Eol) (rev (I @ '':''), [], c))"
    by simp
  have "\<exists>s1 \<in> set (run WordB ([], I @ '':'', c)).
          \<exists>s2 \<in> set (run (regexPrepareFuzzy Q) s1).
            \<exists>s3 \<in> set (run (Star wordOrDot) s2).
              \<exists>s4 \<in> set (run (Atom (One (Lit (CHR '':'')))) s3).
                 (rev (I @ '':''), [], c) \<in> set (run (Alt (Atom (NotIn [Lit (CHR '':'')])) Eol) s4)"
    using 1 w(2) 3 4 5 by blast
  then show ?thesis unfolding in_run_Cat5 .
qed

lemma colon_list_matches:
  assumes "list_emb sameIgnoringCase Q I" "\<forall>x \<in> set I. isWordChar x" "I \<noteq> []"
  shows "exec (regexEveryLabelColonForWord (regexPrepareFuzzy Q) ASM_LIST_FILE) (I @ '':'') \<noteq> None"
proof -
  let ?T = "[WordB, regexPrepareFuzzy Q, Star wordOrDot, Atom (One (Lit (CHR '':''))),
             Alt (Atom (NotIn [Lit (CHR '':'')])) Eol]"
  let ?R = "Cat (Bol # Group 1 (Star (One AnyChar)) # ?T)"
  have R: "regexEveryLabelColonForWord (regexPrepareFuzzy Q) ASM_LIST_FILE = ?R"
    by (simp add: regexEveryLabelColonForWord_def)
  have ng: "replicate (Suc (ngroups ?R)) None = [None, None]"
    by (simp add: wordOrDot_def numeral_2_eq_2)
  let ?st = "([], I @ '':'', [None, None])"
  let ?c = "[None, Some []]"
  have 1: "?st \<in> set (run Bol ?st)" by simp
  have "([], I @ '':'', [None, None]) \<in> set (run (Star (One AnyChar)) ?st)"
    unfolding in_run_Star by simp
  then have 2: "([], I @ '':'', ?c) \<in> set (run (Group 1 (Star (One AnyChar))) ?st)"
    unfolding in_run_Group by (intro exI [of _ "[None, None]"]) simp
  have 3: "(rev (I @ '':''), [], ?c) \<in> set (run (Cat ?T) ([], I @ '':'', ?c))"
    using assms by (rule colon_tail)
  have "(rev (I @ '':''), [], ?c) \<in> set (run ?R ?st)"
    using 1 2 3 by (subst in_run_Cat_Cons, subst in_run_Cat_Cons) blast
  then have "(rev (I @ '':''), [], ?c) \<in> set (run ?R ([], I @ '':'', replicate (Suc (ngroups ?R)) None))"
    unfolding ng .
  then show ?thesis unfolding R by (rule exec_found)
qed

lemma colon_asm_matches:
  assumes "list_emb sameIgnoringCase Q I" "\<forall>x \<in> set I. isWordChar x" "I \<noteq> []"
  shows "exec (regexEveryLabelColonForWord (regexPrepareFuzzy Q) ASM_COLLECTION) (I @ '':'') \<noteq> None"
proof -
  let ?T = "[WordB, regexPrepareFuzzy Q, Star wordOrDot, Atom (One (Lit (CHR '':''))),
             Alt (Atom (NotIn [Lit (CHR '':'')])) Eol]"
  let ?A = "Cat [Bol, Opt (Atom (One (Lit (CHR ''@'')))), Star wordOrDot]"
  let ?B = "Cat [Bol, Star (One AnyChar), Atom (One SpaceCh),
                 Opt (Atom (One (Lit (CHR ''@'')))), Star wordOrDot]"
  let ?R = "Cat (Group 1 (Alt ?A ?B) # ?T)"
  have R: "regexEveryLabelColonForWord (regexPrepareFuzzy Q) ASM_COLLECTION = ?R"
    by (simp add: regexEveryLabelColonForWord_def)
  have ng: "replicate (Suc (ngroups ?R)) None = [None, None]"
    by (simp add: wordOrDot_def numeral_2_eq_2)
  let ?st = "([], I @ '':'', [None, None])"
  let ?c = "[None, Some []]"
  have a1: "?st \<in> set (run Bol ?st)" by simp
  have a2: "?st \<in> set (run (Opt (Atom (One (Lit (CHR ''@''))))) ?st)" by (rule in_run_Opt_skip)
  have a3: "?st \<in> set (run (Star wordOrDot) ?st)" unfolding in_run_Star by simp
  have "?st \<in> set (run ?A ?st)" unfolding in_run_Cat3 using a1 a2 a3 by blast
  then have "?st \<in> set (run (Alt ?A ?B) ?st)" by (simp del: run_Cat_Cons)
  then have 2: "([], I @ '':'', ?c) \<in> set (run (Group 1 (Alt ?A ?B)) ?st)"
    unfolding in_run_Group by (intro exI [of _ "[None, None]"]) simp
  have 3: "(rev (I @ '':''), [], ?c) \<in> set (run (Cat ?T) ([], I @ '':'', ?c))"
    using assms by (rule colon_tail)
  have "(rev (I @ '':''), [], ?c) \<in> set (run ?R ?st)"
    using 2 3 by (subst in_run_Cat_Cons) blast
  then have "(rev (I @ '':''), [], ?c) \<in> set (run ?R ([], I @ '':'', replicate (Suc (ngroups ?R)) None))"
    unfolding ng .
  then show ?thesis unfolding R by (rule exec_found)
qed

lemma without_colon_matches:
  assumes emb: "list_emb sameIgnoringCase Q I" and wI: "\<forall>x \<in> set I. isWordChar x" and ne: "I \<noteq> []"
  shows "exec (regexEveryLabelWithoutColonForWord (regexPrepareFuzzy Q)) I \<noteq> None"
proof -
  let ?X = "Opt (Group 2 (Cat [Atom (NotIn [Range (CHR ''0'') (CHR ''9''), Lit (CHR '' '')]),
                               Star wordOrDot]))"
  let ?N = "NegLook (Atom (In [Lit (CHR '':''), WordCh, Lit (CHR ''.'')]))"
  let ?R = "Cat [Bol, Group 1 ?X, WordB, regexPrepareFuzzy Q, Star wordOrDot, WordB, ?N]"
  have R: "regexEveryLabelWithoutColonForWord (regexPrepareFuzzy Q) = ?R"
    by (simp add: regexEveryLabelWithoutColonForWord_def)
  have ng: "replicate (Suc (ngroups ?R)) None = [None, None, None]"
    by (simp add: wordOrDot_def numeral_2_eq_2)
  obtain x xs where I: "I = x # xs" using ne by (cases I) auto
  let ?st = "([], I, [None, None, None])"
  let ?c = "[None, Some [], None]"
  have 1: "?st \<in> set (run Bol ?st)" by simp
  have "?st \<in> set (run ?X ?st)" by (rule in_run_Opt_skip)
  then have 2: "([], I, ?c) \<in> set (run (Group 1 ?X) ?st)"
    unfolding in_run_Group by (intro exI [of _ "[None, None, None]"]) simp
  have 3: "([], I, ?c) \<in> set (run WordB ([], I, ?c))"
    using wI unfolding I by (intro in_run_WordB) (simp add: boundary_start)
  from fuzzy_complete [OF emb wI, of "[]" "[]" ?c] obtain w1 w2 where
    w: "I = w1 @ w2" "(rev w1, w2, ?c) \<in> set (run (regexPrepareFuzzy Q) ([], I, ?c))"
    by auto
  have "\<forall>x \<in> set w2. atom_ok wordOrDot x" using wI w(1) by (auto intro: wordOrDot_atom)
  then have 5: "(rev I, [], ?c) \<in> set (run (Star wordOrDot) (rev w1, w2, ?c))"
    unfolding in_run_Star using w(1) by auto
  have "isWordChar (last I)" using wI ne by simp
  then have 6: "(rev I, [], ?c) \<in> set (run WordB (rev I, [], ?c))"
    using ne by (intro in_run_WordB boundary_end)
  have 7: "(rev I, [], ?c) \<in> set (run ?N (rev I, [], ?c))" by simp
  have "\<exists>s1 \<in> set (run Bol ?st). \<exists>s2 \<in> set (run (Group 1 ?X) s1). \<exists>s3 \<in> set (run WordB s2).
          \<exists>s4 \<in> set (run (regexPrepareFuzzy Q) s3). \<exists>s5 \<in> set (run (Star wordOrDot) s4).
            \<exists>s6 \<in> set (run WordB s5). (rev I, [], ?c) \<in> set (run ?N s6)"
    using 1 2 3 w(2) 5 6 7 by blast
  then have "(rev I, [], ?c) \<in> set (run ?R ?st)" unfolding in_run_Cat7 .
  then have "(rev I, [], ?c) \<in> set (run ?R ([], I, replicate (Suc (ngroups ?R)) None))"
    unfolding ng .
  then show ?thesis unfolding R by (rule exec_found)
qed












section \<open>The search patterns\<close>

text \<open>
  C7. For every identifier \<open>I\<close> (a non-empty string of word characters) and every query
  \<open>Q\<close> whose characters are a subsequence of \<open>I\<close>, exactly or up to case, the fuzzy pattern
  for \<open>Q\<close> matches \<open>I\<close> inside each search pattern, in both languages: the label pattern
  without colon on the line \<open>I\<close>, the label pattern with colon on \<open>I\<close> followed by a colon,
  the MODULE and MACRO patterns on the keyword followed by \<open>I\<close>. The witness has the query
  \<^verbatim>\<open>sn\<close>, which matches \<^verbatim>\<open>SetAndReturn\<close> and \<^verbatim>\<open>Sync\<close> and not \<^verbatim>\<open>Other\<close>.
\<close>

theorem fuzzy_pattern_matches_every_supersequence:
  assumes "I \<noteq> []" and "\<forall>x \<in> set I. isWordChar x"
    and "subseq Q I \<or> list_emb sameIgnoringCase Q I"
  shows "exec (regexEveryLabelWithoutColonForWord (regexPrepareFuzzy Q)) I \<noteq> None
       \<and> exec (regexEveryLabelColonForWord (regexPrepareFuzzy Q) languageId) (I @ '':'') \<noteq> None
       \<and> exec (regexEveryModuleForWord (regexPrepareFuzzy Q) languageId) ('' MODULE '' @ I) \<noteq> None
       \<and> exec (regexEveryMacroForWord (regexPrepareFuzzy Q) languageId) ('' MACRO '' @ I) \<noteq> None"
proof -
  have emb: "list_emb sameIgnoringCase Q I"
    using assms(3) subseq_sameIgnoringCase by blast
  have sp: "'' '' \<noteq> []" "\<forall>x \<in> set '' ''. isSpaceChar x"
    by (simp_all add: isSpaceChar_def code_def)
  have kw: "list_all2 sameIgnoringCase k k" for k
    by (simp add: list_all2_same sameIgnoringCase_refl)
  have 1: "exec (regexEveryLabelWithoutColonForWord (regexPrepareFuzzy Q)) I \<noteq> None"
    using emb assms(2,1) by (rule without_colon_matches)
  have 2: "exec (regexEveryLabelColonForWord (regexPrepareFuzzy Q) languageId) (I @ '':'') \<noteq> None"
    using colon_asm_matches [OF emb assms(2,1)] colon_list_matches [OF emb assms(2,1)]
    by (cases languageId) simp_all
  have 3: "exec (regexEveryModuleForWord (regexPrepareFuzzy Q) languageId) ('' MODULE '' @ I) \<noteq> None"
  proof (cases languageId)
    case ASM_COLLECTION
    from primary_keyword_complete [OF emb assms(2) sp kw sp, of "''MODULE''" wordOrDot "[]"]
    show ?thesis unfolding ASM_COLLECTION module_asm_eq by simp
  next
    case ASM_LIST_FILE
    from listing_keyword_complete [OF emb assms(2) _ sp kw sp, of "[]" "''MODULE''" wordOrDot "[]"]
    show ?thesis unfolding ASM_LIST_FILE module_list_eq by simp
  qed
  have 4: "exec (regexEveryMacroForWord (regexPrepareFuzzy Q) languageId) ('' MACRO '' @ I) \<noteq> None"
  proof (cases languageId)
    case ASM_COLLECTION
    from primary_keyword_complete [OF emb assms(2) sp kw sp, of "''MACRO''" _ "[]"]
    show ?thesis unfolding ASM_COLLECTION macro_asm_eq by simp
  next
    case ASM_LIST_FILE
    from listing_keyword_complete [OF emb assms(2) _ sp kw sp, of "[]" "''MACRO''" _ "[]"]
    show ?thesis unfolding ASM_LIST_FILE macro_list_eq by simp
  qed
  show ?thesis using 1 2 3 4 by simp
qed

theorem fuzzy_pattern_matches_every_supersequence_witness:
  "list_emb sameIgnoringCase ''sn'' ''SetAndReturn''
   \<and> list_emb sameIgnoringCase ''sn'' ''Sync''
   \<and> exec (regexEveryLabelWithoutColonForWord (regexPrepareFuzzy ''sn'')) ''SetAndReturn'' \<noteq> None
   \<and> exec (regexEveryLabelColonForWord (regexPrepareFuzzy ''sn'') ASM_COLLECTION) ''SetAndReturn:'' \<noteq> None
   \<and> exec (regexEveryModuleForWord (regexPrepareFuzzy ''sn'') ASM_COLLECTION) '' MODULE SetAndReturn'' \<noteq> None
   \<and> exec (regexEveryMacroForWord (regexPrepareFuzzy ''sn'') ASM_LIST_FILE) '' MACRO Sync'' \<noteq> None
   \<and> exec (regexEveryLabelWithoutColonForWord (regexPrepareFuzzy ''sn'')) ''Sync'' \<noteq> None
   \<and> exec (regexEveryLabelWithoutColonForWord (regexPrepareFuzzy ''sn'')) ''Other'' = None
   \<and> exec (regexEveryLabelColonForWord (regexPrepareFuzzy ''sn'') ASM_COLLECTION) ''Other:'' = None
   \<and> exec (regexEveryModuleForWord (regexPrepareFuzzy ''sn'') ASM_COLLECTION) '' MODULE Other'' = None
   \<and> exec (regexEveryMacroForWord (regexPrepareFuzzy ''sn'') ASM_COLLECTION) '' MACRO Other'' = None"
proof -
  have e1: "list_emb sameIgnoringCase ''sn'' ''SetAndReturn''" by code_simp
  have e2: "list_emb sameIgnoringCase ''sn'' ''Sync''" by code_simp
  have w1: "\<forall>x \<in> set ''SetAndReturn''. isWordChar x" by code_simp
  have w2: "\<forall>x \<in> set ''Sync''. isWordChar x" by code_simp
  have n: "exec (regexEveryLabelWithoutColonForWord (regexPrepareFuzzy ''sn'')) ''Other'' = None"
    "exec (regexEveryLabelColonForWord (regexPrepareFuzzy ''sn'') ASM_COLLECTION) ''Other:'' = None"
    "exec (regexEveryModuleForWord (regexPrepareFuzzy ''sn'') ASM_COLLECTION) '' MODULE Other'' = None"
    "exec (regexEveryMacroForWord (regexPrepareFuzzy ''sn'') ASM_COLLECTION) '' MACRO Other'' = None"
    by code_simp+
  show ?thesis
    using fuzzy_pattern_matches_every_supersequence [of "''SetAndReturn''" "''sn''" ASM_COLLECTION]
          fuzzy_pattern_matches_every_supersequence [of "''Sync''" "''sn''" ASM_LIST_FILE]
          e1 e2 w1 w2 n
    by simp
qed




end
